theory Spec2Isabelle
  imports Main "HOL-Library.Word"
begin

text \<open>
  The transport pipeline of the PIX client: the circuit breaker, the retry stage, the
  OAuth2 token provider and the auth stage, each as a function on explicit state, and
  the properties of them that the specification states.
\<close>

section \<open>Shared data: integers, time, errors, HTTP messages\<close>

text \<open>
  Go's \<open>int\<close> and \<open>time.Duration\<close> (an \<open>int64\<close> of nanoseconds) are 64-bit
  two's-complement values: \<open>+\<close> and \<open>*\<close> wrap, comparisons are the signed ones
  (\<open>\<le>s\<close>, \<open><s\<close>). A \<open>time.Time\<close> is an instant; it is modelled as an unbounded
  count of nanoseconds (the range of \<open>time.Time\<close> is far wider than that of a
  \<open>Duration\<close>), and \<open>Time.Sub\<close> saturates at the ends of \<open>Duration\<close> as the
  standard library documents.
\<close>

type_synonym go_int = "64 word"
type_synonym Duration = "64 word"
type_synonym Time = int

definition maxDuration :: int where
  "maxDuration = 2 ^ 63 - 1"

definition minDuration :: int where
  "minDuration = - (2 ^ 63)"

definition Second :: Duration where
  "Second = 1000000000"

definition Minute :: Duration where
  "Minute = 60 * Second"

text \<open>\<open>t.Sub(u)\<close>: the duration \<open>t - u\<close>, saturated.\<close>
definition time_Sub :: "Time \<Rightarrow> Time \<Rightarrow> Duration" where
  "time_Sub t u = word_of_int (max minDuration (min maxDuration (t - u)))"

text \<open>\<open>t.Add(d)\<close>.\<close>
definition time_Add :: "Time \<Rightarrow> Duration \<Rightarrow> Time" where
  "time_Add t d = t + sint d"

text \<open>\<open>time.Since(t)\<close> and \<open>time.Until(t)\<close>, with the clock reading made explicit.\<close>
definition time_Since :: "Time \<Rightarrow> Time \<Rightarrow> Duration" where
  "time_Since now t = time_Sub now t"

definition time_Until :: "Time \<Rightarrow> Time \<Rightarrow> Duration" where
  "time_Until now t = time_Sub t now"

text \<open>The zero value of \<open>time.Time\<close>: January 1, year 1, counted from the Unix epoch.\<close>
definition zeroTime :: Time where
  "zeroTime = - 62135596800000000000"

datatype error =
    ErrCircuitOpen
  | ContextErr string
  | OtherErr string
  | Wrapped string error
  | TokenRequestFailed int string

text \<open>
  An \<open>http.Response\<close>, as far as the stages look at it: the status code and the body,
  which may be nil and which \<open>Close\<close> marks. \<open>StatusCode\<close> is a Go \<open>int\<close> that
  the code only compares with constants, so it is read as an integer.
\<close>
record Body =
  Data :: string
  Closed :: bool

record Response =
  StatusCode :: int
  RespBody :: "Body option"

record Request =
  Method :: string
  URL :: string
  Header :: "string \<rightharpoonup> string list"

text \<open>What a \<open>RoundTrip\<close> returns: \<open>(*http.Response, error)\<close>, either of which may be nil.\<close>
type_synonym outcome = "Response option \<times> error option"

text \<open>
  An inner sender (\<open>http.RoundTripper\<close>) is a function on an explicit environment
  state \<open>'s\<close>: it returns its outcome and the new state.
\<close>
type_synonym 's sender = "Request \<Rightarrow> 's \<Rightarrow> outcome \<times> 's"

text \<open>
  A sender that counts its calls beside the state of the sender it wraps, as the
  mock round trippers of the test suite do with \<open>callCount++\<close>.
\<close>
definition counted :: "'s sender \<Rightarrow> ('s \<times> nat) sender" where
  "counted base req = (\<lambda>(s, n). case base req s of (out, s') \<Rightarrow> (out, (s', Suc n)))"

text \<open>A sender that answers its \<open>n\<close>-th call (from 0) with \<open>script n\<close>.\<close>
definition scripted :: "(nat \<Rightarrow> outcome) \<Rightarrow> nat sender" where
  "scripted script req n = (script n, Suc n)"

section \<open>Circuit breaker (internal/transport/circuit\_breaker.go)\<close>

datatype circuitState = stateClosed | stateOpen | stateHalfOpen

record circuitBreaker =
  state :: circuitState
  failureCount :: go_int
  maxFailures :: go_int
  resetTimeout :: Duration
  lastFailTime :: Time

definition newCircuitBreaker :: "go_int \<Rightarrow> Duration \<Rightarrow> circuitBreaker" where
  "newCircuitBreaker maxF resetT =
     \<lparr> state = stateClosed, failureCount = 0, maxFailures = maxF,
       resetTimeout = resetT, lastFailTime = zeroTime \<rparr>"

text \<open>
  \<open>canExecute\<close>; \<open>now\<close> is the reading of the clock inside \<open>time.Since\<close>. The
  \<open>default\<close> branch of the source's switch is for values of the integer type
  \<open>circuitState\<close> other than the three constants, which no statement assigns.
\<close>
fun canExecute :: "Time \<Rightarrow> circuitBreaker \<Rightarrow> error option \<times> circuitBreaker" where
  "canExecute now cb =
     (case state cb of
        stateClosed \<Rightarrow> (None, cb)
      | stateOpen \<Rightarrow>
          (if resetTimeout cb <s time_Since now (lastFailTime cb)
           then (None, cb\<lparr>state := stateHalfOpen\<rparr>)
           else (Some ErrCircuitOpen, cb))
      | stateHalfOpen \<Rightarrow> (None, cb))"

definition recordSuccess :: "circuitBreaker \<Rightarrow> circuitBreaker" where
  "recordSuccess cb =
     (let cb1 = cb\<lparr>failureCount := 0\<rparr>
      in if state cb1 = stateHalfOpen then cb1\<lparr>state := stateClosed\<rparr> else cb1)"

definition recordFailure :: "Time \<Rightarrow> circuitBreaker \<Rightarrow> circuitBreaker" where
  "recordFailure now cb =
     (let cb1 = cb\<lparr>failureCount := failureCount cb + 1, lastFailTime := now\<rparr>
      in if state cb1 = stateHalfOpen then cb1\<lparr>state := stateOpen\<rparr>
         else if maxFailures cb1 \<le>s failureCount cb1 then cb1\<lparr>state := stateOpen\<rparr>
         else cb1)"

definition isCircuitBreakerFailure :: "Response option \<Rightarrow> error option \<Rightarrow> bool" where
  "isCircuitBreakerFailure resp err =
     (if err \<noteq> None then True
      else case resp of
             None \<Rightarrow> True
           | Some r \<Rightarrow> if 500 \<le> StatusCode r \<and> StatusCode r < 600 then True else False)"

text \<open>
  \<open>CircuitBreakerTransport.RoundTrip\<close>. The transport holds the inner sender and the
  breaker; \<open>clock\<close> reads \<open>time.Now()\<close> off the environment state. The state is the
  pair of the breaker and the environment.
\<close>
record 's CircuitBreakerTransport =
  cb_base :: "'s sender"
  cb_clock :: "'s \<Rightarrow> Time"

definition CBT_RoundTrip ::
  "'s CircuitBreakerTransport \<Rightarrow> Request \<Rightarrow> circuitBreaker \<times> 's
     \<Rightarrow> outcome \<times> circuitBreaker \<times> 's" where
  "CBT_RoundTrip t req = (\<lambda>(cb, s).
     case canExecute (cb_clock t s) cb of
       (Some err, cb1) \<Rightarrow> ((None, Some err), cb1, s)
     | (None, cb1) \<Rightarrow>
         (case cb_base t req s of
            ((resp, err), s1) \<Rightarrow>
              if isCircuitBreakerFailure resp err
              then ((resp, err), recordFailure (cb_clock t s1) cb1, s1)
              else ((resp, err), recordSuccess cb1, s1)))"


subsection \<open>Sequences of breaker operations\<close>

text \<open>
  Every change of the breaker is made by one of its three methods, each under the
  breaker's lock. A sequence of calls on the breaker, from one caller or from several,
  is therefore a sequence of these operations; the operations that read the clock
  carry their reading.
\<close>
datatype cb_op = OpCanExecute Time | OpRecordSuccess | OpRecordFailure Time

fun cb_apply :: "cb_op \<Rightarrow> circuitBreaker \<Rightarrow> circuitBreaker" where
  "cb_apply (OpCanExecute now) cb = snd (canExecute now cb)"
| "cb_apply OpRecordSuccess cb = recordSuccess cb"
| "cb_apply (OpRecordFailure now) cb = recordFailure now cb"

definition cb_run :: "circuitBreaker \<Rightarrow> cb_op list \<Rightarrow> circuitBreaker" where
  "cb_run cb ops = foldl (\<lambda>c op. cb_apply op c) cb ops"

text \<open>
  The transition rules in the words of the specification: what the state, the counter
  and the time of the last recorded failure are after an operation, given what they
  were before it. The time of the last failure, against which the reset timeout is
  measured, is the clock reading of the latest recorded failure and of nothing else;
  the threshold and the reset timeout never change.
\<close>
fun transition_ok :: "cb_op \<Rightarrow> circuitBreaker \<Rightarrow> circuitBreaker \<Rightarrow> bool" where
  "transition_ok (OpCanExecute now) cb cb' =
     (failureCount cb' = failureCount cb \<and> lastFailTime cb' = lastFailTime cb \<and>
      maxFailures cb' = maxFailures cb \<and> resetTimeout cb' = resetTimeout cb \<and>
      (if state cb = stateOpen \<and> resetTimeout cb <s time_Since now (lastFailTime cb)
       then state cb' = stateHalfOpen
       else state cb' = state cb))"
| "transition_ok OpRecordSuccess cb cb' =
     (failureCount cb' = 0 \<and> lastFailTime cb' = lastFailTime cb \<and>
      maxFailures cb' = maxFailures cb \<and> resetTimeout cb' = resetTimeout cb \<and>
      (if state cb = stateHalfOpen then state cb' = stateClosed else state cb' = state cb))"
| "transition_ok (OpRecordFailure now) cb cb' =
     (failureCount cb' = failureCount cb + 1 \<and> lastFailTime cb' = now \<and>
      maxFailures cb' = maxFailures cb \<and> resetTimeout cb' = resetTimeout cb \<and>
      (if state cb = stateHalfOpen then state cb' = stateOpen
       else if state cb = stateClosed \<and> maxFailures cb \<le>s failureCount cb'
       then state cb' = stateOpen
       else state cb' = state cb))"

text \<open>While the breaker is closed, the counter is below the threshold.\<close>
definition below_threshold :: "circuitBreaker \<Rightarrow> bool" where
  "below_threshold cb \<longleftrightarrow> (state cb = stateClosed \<longrightarrow> failureCount cb <s maxFailures cb)"

section \<open>Retry stage (internal/transport/retry.go)\<close>

text \<open>
  The request's \<open>context.Context\<close>, as far as \<open>RoundTrip\<close> uses it: \<open>ctx_Done\<close> is
  the non-blocking \<open>select\<close> on \<open>req.Context().Done()\<close> (the context's error when
  it is done), and \<open>ctx_wait\<close> is the \<open>select\<close> between the context and
  \<open>time.After(backoff)\<close>. The length of the wait, \<open>calculateBackoff\<close>, is
  floating-point arithmetic on a random number and is not part of the model: the
  environment decides whether the context fires during the wait.
\<close>
record 's Context =
  ctx_Done :: "'s \<Rightarrow> error option"
  ctx_wait :: "'s \<Rightarrow> error option \<times> 's"

text \<open>\<open>context.Background()\<close>, the context of a request made without one: never done.\<close>
definition background :: "'s Context" where
  "background = \<lparr> ctx_Done = (\<lambda>s. None), ctx_wait = (\<lambda>s. (None, s)) \<rparr>"

record 's RetryTransport =
  rt_base :: "'s sender"
  maxRetries :: go_int
  initialBackoff :: Duration

text \<open>\<open>NewRetryTransport\<close>, for a base that is not nil.\<close>
definition NewRetryTransport :: "'s sender \<Rightarrow> go_int \<Rightarrow> Duration \<Rightarrow> 's RetryTransport" where
  "NewRetryTransport base maxR backoff =
     \<lparr> rt_base = base, maxRetries = maxR, initialBackoff = backoff \<rparr>"

definition isIdempotent :: "string \<Rightarrow> bool" where
  "isIdempotent method =
     (method = ''GET'' \<or> method = ''HEAD'' \<or> method = ''OPTIONS'' \<or> method = ''PUT''
      \<or> method = ''DELETE'')"

definition shouldRetry :: "Response option \<Rightarrow> error option \<Rightarrow> bool" where
  "shouldRetry resp err =
     (if err \<noteq> None then True
      else case resp of
             None \<Rightarrow> True
           | Some r \<Rightarrow>
               StatusCode r = 429 \<or> StatusCode r = 502 \<or> StatusCode r = 503
               \<or> StatusCode r = 504)"

text \<open>\<open>if resp != nil && resp.Body != nil { resp.Body.Close() }\<close>\<close>
definition closeBody :: "Response option \<Rightarrow> Response option" where
  "closeBody resp =
     (case resp of
        None \<Rightarrow> None
      | Some r \<Rightarrow>
          (case RespBody r of
             None \<Rightarrow> Some r
           | Some b \<Rightarrow> Some (r\<lparr>RespBody := Some (b\<lparr>Closed := True\<rparr>)\<rparr>)))"

text \<open>What follows the loop: \<open>resp\<close> and \<open>lastErr\<close> are as the last attempt left them.\<close>
definition exhausted :: "outcome \<Rightarrow> outcome" where
  "exhausted prev =
     (case prev of
        (resp, Some e) \<Rightarrow> (None, Some (Wrapped ''max retries exceeded: '' e))
      | (resp, None) \<Rightarrow> (resp, None))"

text \<open>The largest Go \<open>int\<close>, \<open>math.MaxInt\<close>.\<close>
definition maxInt :: int where
  "maxInt = 2 ^ 63 - 1"

text \<open>
  The loop of \<open>RoundTrip\<close>, from the test of its condition with the loop variable at
  \<open>attempt\<close>; \<open>prev\<close> holds the variables \<open>resp\<close> and \<open>lastErr\<close>. The loop
  variable is a Go \<open>int\<close>: with \<open>maxRetries\<close> at the largest \<open>int\<close> the condition
  never fails, so the loop need not end and the function is partial.
\<close>
partial_function (option) retry_loop ::
  "'s RetryTransport \<Rightarrow> 's Context \<Rightarrow> Request \<Rightarrow> go_int \<Rightarrow> outcome \<Rightarrow> 's
     \<Rightarrow> (outcome \<times> 's) option" where
  "retry_loop t ctx req attempt prev s =
     (if attempt \<le>s maxRetries t then
        (case ctx_Done ctx s of
           Some e \<Rightarrow> Some ((None, Some e), s)
         | None \<Rightarrow>
             (case rt_base t req s of
                ((resp, lastErr), s1) \<Rightarrow>
                  if lastErr = None \<and> \<not> shouldRetry resp None then Some ((resp, None), s1)
                  else if shouldRetry resp lastErr \<and> isIdempotent (Method req) then
                    (if attempt <s maxRetries t then
                       (case ctx_wait ctx s1 of
                          (Some e, s2) \<Rightarrow> Some ((None, Some e), s2)
                        | (None, s2) \<Rightarrow>
                            retry_loop t ctx req (attempt + 1) (closeBody resp, lastErr) s2)
                     else retry_loop t ctx req (attempt + 1) (closeBody resp, lastErr) s1)
                  else Some ((resp, lastErr), s1)))
      else Some (exhausted prev, s))"

definition RT_RoundTrip ::
  "'s RetryTransport \<Rightarrow> 's Context \<Rightarrow> Request \<Rightarrow> 's \<Rightarrow> (outcome \<times> 's) option" where
  "RT_RoundTrip t ctx req s = retry_loop t ctx req 0 (None, None) s"

text \<open>
  The claimed terminal error, in the words of the specification: an error that wraps
  another to say that the retries were exhausted.
\<close>
definition retries_exhausted_error :: "outcome \<Rightarrow> bool" where
  "retries_exhausted_error out =
     (case out of
        (None, Some (Wrapped msg e)) \<Rightarrow> msg = ''max retries exceeded: ''
      | _ \<Rightarrow> False)"

text \<open>
  The retry decision in the words of the specification, for a run of the stage whose
  inner sender answers its \<open>i\<close>-th call with \<open>script i\<close>: the run starts with the
  sender at call \<open>n\<close> and ends with it at call \<open>N\<close>, so it made the attempts
  \<open>n, \<dots>, N - 1\<close>. Attempt \<open>i\<close> is followed by another exactly when its outcome is
  retryable, the method is idempotent and \<open>i\<close> is below \<open>maxRetries\<close>; the
  run returns the outcome of its last attempt as it is when the attempt is not to be
  retried, and what follows the loop otherwise.
\<close>
definition retry_spec ::
  "go_int \<Rightarrow> Request \<Rightarrow> (nat \<Rightarrow> outcome) \<Rightarrow> nat \<Rightarrow> outcome \<Rightarrow> nat \<Rightarrow> bool" where
  "retry_spec maxR req script n out N \<longleftrightarrow>
     n < N \<and> int N \<le> sint maxR + 1
     \<and> (\<forall>i \<in> {n..<N}.
           (Suc i < N) =
             (case_prod shouldRetry (script i) \<and> isIdempotent (Method req) \<and> int i < sint maxR))
     \<and> out = (if case_prod shouldRetry (script (N - 1)) \<and> isIdempotent (Method req)
              then exhausted (closeBody (fst (script (N - 1))), snd (script (N - 1)))
              else script (N - 1))"

section \<open>Token and token provider (package auth; internal/auth/oauth2.go)\<close>

record Token =
  AccessToken :: string
  TokenType :: string
  ExpiresIn :: go_int
  IssuedAt :: Time

text \<open>\<open>t.IssuedAt.Add(time.Duration(t.ExpiresIn) * time.Second)\<close>: the product is a
  \<open>Duration\<close> and wraps.\<close>
definition ExpiresAt :: "Token \<Rightarrow> Time" where
  "ExpiresAt t = time_Add (IssuedAt t) (ExpiresIn t * Second)"

text \<open>\<open>IsExpired\<close>, on a pointer that may be nil; \<open>now\<close> is the clock reading inside
  \<open>time.Until\<close>.\<close>
definition IsExpired :: "Time \<Rightarrow> Token option \<Rightarrow> bool" where
  "IsExpired now t =
     (case t of
        None \<Rightarrow> True
      | Some tok \<Rightarrow>
          (let expirationThreshold = 5 * Minute;
               expiresAt = time_Add (IssuedAt tok) (ExpiresIn tok * Second);
               timeUntilExpiration = time_Until now expiresAt
           in timeUntilExpiration <s expirationThreshold))"

record tokenResponse =
  tr_AccessToken :: string
  tr_TokenType :: string
  tr_ExpiresIn :: go_int

record OAuth2Provider =
  tokenURL :: string
  clientID :: string
  clientSecret :: string
  cachedToken :: "Token option"

definition NewOAuth2Provider :: "string \<Rightarrow> string \<Rightarrow> string \<Rightarrow> OAuth2Provider" where
  "NewOAuth2Provider url cid secret =
     \<lparr> tokenURL = url, clientID = cid, clientSecret = secret, cachedToken = None \<rparr>"

text \<open>
  What \<open>fetchToken\<close> asks of its surroundings. \<open>ep_newRequest\<close> is the error of
  \<open>http.NewRequestWithContext\<close> for the token URL, \<open>ep_do\<close> is the exchange
  \<open>p.httpClient.Do(req)\<close> with the identity endpoint (the only step that changes the
  environment), whose reply carries the status and what \<open>io.ReadAll\<close> makes of the
  body, \<open>ep_unmarshal\<close> is \<open>json.Unmarshal\<close> into a \<open>tokenResponse\<close>, and
  \<open>ep_clock\<close> reads \<open>time.Now()\<close> off the environment.
\<close>
record http_reply =
  reply_status :: int
  reply_body :: "error + string"

record 's IdentityEndpoint =
  ep_clock :: "'s \<Rightarrow> Time"
  ep_newRequest :: "string \<Rightarrow> error option"
  ep_do :: "string \<Rightarrow> string \<Rightarrow> string \<Rightarrow> 's \<Rightarrow> (error + http_reply) \<times> 's"
  ep_unmarshal :: "string \<Rightarrow> error + tokenResponse"

definition fetchToken :: "'s IdentityEndpoint \<Rightarrow> OAuth2Provider \<Rightarrow> 's \<Rightarrow> (error + Token) \<times> 's" where
  "fetchToken e p s =
     (case ep_newRequest e (tokenURL p) of
        Some err \<Rightarrow> (Inl (Wrapped ''failed to create token request: '' err), s)
      | None \<Rightarrow>
          (case ep_do e (tokenURL p) (clientID p) (clientSecret p) s of
             (Inl err, s1) \<Rightarrow> (Inl (Wrapped ''failed to fetch token: '' err), s1)
           | (Inr reply, s1) \<Rightarrow>
               (case reply_body reply of
                  Inl err \<Rightarrow> (Inl (Wrapped ''failed to read token response: '' err), s1)
                | Inr body \<Rightarrow>
                    if reply_status reply \<noteq> 200
                    then (Inl (TokenRequestFailed (reply_status reply) body), s1)
                    else (case ep_unmarshal e body of
                            Inl err \<Rightarrow>
                              (Inl (Wrapped ''failed to parse token response: '' err), s1)
                          | Inr tokenResp \<Rightarrow>
                              (Inr \<lparr> AccessToken = tr_AccessToken tokenResp,
                                     TokenType = tr_TokenType tokenResp,
                                     ExpiresIn = tr_ExpiresIn tokenResp,
                                     IssuedAt = ep_clock e s1 \<rparr>, s1)))))"

text \<open>The end of \<open>GetToken\<close>: fetch a new token and, when that succeeds, cache it.\<close>
definition fetchAndCache ::
  "'s IdentityEndpoint \<Rightarrow> OAuth2Provider \<Rightarrow> 's
     \<Rightarrow> (Token option \<times> error option) \<times> OAuth2Provider \<times> 's" where
  "fetchAndCache e p s =
     (case fetchToken e p s of
        (Inl err, s1) \<Rightarrow> ((None, Some err), p, s1)
      | (Inr token, s1) \<Rightarrow> ((Some token, None), p\<lparr>cachedToken := Some token\<rparr>, s1))"

text \<open>
  \<open>GetToken\<close> for one caller at a time. The test under the read lock and the test
  under the write lock read the same cache and the same clock, since in a run of one
  caller nothing happens between them. Callers that interleave between the two tests
  are the subject of a later section.
\<close>
definition GetToken ::
  "'s IdentityEndpoint \<Rightarrow> OAuth2Provider \<Rightarrow> 's
     \<Rightarrow> (Token option \<times> error option) \<times> OAuth2Provider \<times> 's" where
  "GetToken e p s =
     (if cachedToken p \<noteq> None \<and> \<not> IsExpired (ep_clock e s) (cachedToken p)
      then ((cachedToken p, None), p, s)
      else if cachedToken p \<noteq> None \<and> \<not> IsExpired (ep_clock e s) (cachedToken p)
      then ((cachedToken p, None), p, s)
      else fetchAndCache e p s)"

definition Invalidate :: "OAuth2Provider \<Rightarrow> OAuth2Provider" where
  "Invalidate p = p\<lparr>cachedToken := None\<rparr>"

section \<open>Auth stage (package transport, \<open>AuthTransport\<close>)\<close>

text \<open>
  The interface \<open>auth.TokenProvider\<close>: two methods on a provider state \<open>'p\<close>.
\<close>
record ('p, 's) TokenProvider =
  tp_GetToken :: "'p \<Rightarrow> 's \<Rightarrow> (Token option \<times> error option) \<times> 'p \<times> 's"
  tp_Invalidate :: "'p \<Rightarrow> 'p"

definition oauth2 :: "'s IdentityEndpoint \<Rightarrow> (OAuth2Provider, 's) TokenProvider" where
  "oauth2 e = \<lparr> tp_GetToken = GetToken e, tp_Invalidate = Invalidate \<rparr>"

text \<open>The \<open>mockTokenProvider\<close> of the transport tests.\<close>
record mockTokenProvider =
  mock_token :: "Token option"
  mock_err :: "error option"
  invalidateCount :: go_int

definition mock :: "(mockTokenProvider, 's) TokenProvider" where
  "mock =
     \<lparr> tp_GetToken = (\<lambda>m s. if mock_err m \<noteq> None then ((None, mock_err m), m, s)
                              else ((mock_token m, None), m, s)),
       tp_Invalidate = (\<lambda>m. m\<lparr>invalidateCount := invalidateCount m + 1\<rparr>) \<rparr>"

record ('p, 's) AuthTransport =
  at_base :: "'s sender"
  tokenProvider :: "('p, 's) TokenProvider"
  developerAppKey :: string

text \<open>\<open>cloneRequest\<close> copies the request and its header map; values are not shared
  in HOL, so the copy is the request.\<close>
definition cloneRequest :: "Request \<Rightarrow> Request" where
  "cloneRequest req = req\<lparr>Header := Header req\<rparr>"

text \<open>\<open>Header.Set\<close>, with the key in its canonical form.\<close>
definition Header_Set :: "Request \<Rightarrow> string \<Rightarrow> string \<Rightarrow> Request" where
  "Header_Set req k v = req\<lparr>Header := (Header req)(k \<mapsto> [v])\<rparr>"

text \<open>A run-time panic, which \<open>RoundTrip\<close> does not return from.\<close>
datatype panic = NilPointerDereference

text \<open>
  \<open>AuthTransport.RoundTrip\<close>. A nil token with a nil error, and a nil response with
  a nil error, are dereferenced by the source.
\<close>
definition AT_RoundTrip ::
  "('p, 's) AuthTransport \<Rightarrow> Request \<Rightarrow> 'p \<times> 's \<Rightarrow> (panic + outcome) \<times> 'p \<times> 's" where
  "AT_RoundTrip t req = (\<lambda>(p, s).
     case tp_GetToken (tokenProvider t) p s of
       ((token, Some err), p1, s1) \<Rightarrow>
         (Inr (None, Some (Wrapped ''failed to get auth token: '' err)), p1, s1)
     | ((None, None), p1, s1) \<Rightarrow> (Inl NilPointerDereference, p1, s1)
     | ((Some token, None), p1, s1) \<Rightarrow>
         (let req1 = cloneRequest req;
              req2 = Header_Set req1 ''Authorization''
                       (TokenType token @ '' '' @ AccessToken token);
              req3 = Header_Set req2 ''Gw-Dev-App-Key'' (developerAppKey t)
          in case at_base t req3 s1 of
               ((resp, Some err), s2) \<Rightarrow> (Inr (None, Some err), p1, s2)
             | ((None, None), s2) \<Rightarrow> (Inl NilPointerDereference, p1, s2)
             | ((Some r, None), s2) \<Rightarrow>
                 if StatusCode r = 401
                 then (Inr (Some r, None), tp_Invalidate (tokenProvider t) p1, s2)
                 else (Inr (Some r, None), p1, s2)))"

text \<open>The request as the auth stage hands it to the inner sender.\<close>
definition authorized :: "('p, 's) AuthTransport \<Rightarrow> Token \<Rightarrow> Request \<Rightarrow> Request" where
  "authorized t token req =
     Header_Set
       (Header_Set (cloneRequest req) ''Authorization''
          (TokenType token @ '' '' @ AccessToken token))
       ''Gw-Dev-App-Key'' (developerAppKey t)"

subsection \<open>The expiry rule in the words of the specification\<close>

text \<open>
  The time remaining before the expiry of a credential, issuance time plus
  \<open>expires_in\<close> seconds, in nanoseconds, and the safety margin of five minutes.
\<close>
definition remaining_validity :: "Time \<Rightarrow> Token \<Rightarrow> int" where
  "remaining_validity now tok = IssuedAt tok + sint (ExpiresIn tok) * 1000000000 - now"

definition safety_margin :: int where
  "safety_margin = 5 * 60 * 1000000000"

subsection \<open>Identity endpoints of the tests (internal/auth/oauth2\_test.go)\<close>

text \<open>
  The test server of \<open>TestOAuth2Provider_GetToken_CachedToken\<close>: it counts its calls
  and answers each with a token valid for an hour. The clock stands at \<open>now\<close>.
\<close>
definition testServer :: "Time \<Rightarrow> nat IdentityEndpoint" where
  "testServer now =
     \<lparr> ep_clock = (\<lambda>n. now),
       ep_newRequest = (\<lambda>url. None),
       ep_do = (\<lambda>url cid secret n.
                 (Inr \<lparr> reply_status = 200, reply_body = Inr ''test-token Bearer 3600'' \<rparr>,
                  Suc n)),
       ep_unmarshal = (\<lambda>body. Inr \<lparr> tr_AccessToken = ''test-token'',
                                      tr_TokenType = ''Bearer'', tr_ExpiresIn = 3600 \<rparr>) \<rparr>"

text \<open>The test server of \<open>TestOAuth2Provider_GetToken_401Error\<close>.\<close>
definition failingServer :: "Time \<Rightarrow> nat IdentityEndpoint" where
  "failingServer now =
     \<lparr> ep_clock = (\<lambda>n. now),
       ep_newRequest = (\<lambda>url. None),
       ep_do = (\<lambda>url cid secret n.
                 (Inr \<lparr> reply_status = 401, reply_body = Inr ''invalid_client'' \<rparr>, Suc n)),
       ep_unmarshal = (\<lambda>body. Inl (OtherErr ''invalid character'')) \<rparr>"

section \<open>Concurrent callers of GetToken (internal/auth/oauth2.go)\<close>

text \<open>
  \<open>GetToken\<close> touches the cache in two critical sections: the test under the read
  lock, and the section under the write lock (the second test and, when it fails, the
  fetch and the store). The \<open>RWMutex\<close> excludes a writer from every other holder, so
  the two sections are the atomic steps of a caller, and a run of several callers is an
  interleaving of their steps.
\<close>

text \<open>The section under \<open>RLock\<close>: the cached token when it is there and not expired.\<close>
definition readLocked :: "'s IdentityEndpoint \<Rightarrow> OAuth2Provider \<Rightarrow> 's \<Rightarrow> Token option option" where
  "readLocked e p s =
     (if cachedToken p \<noteq> None \<and> \<not> IsExpired (ep_clock e s) (cachedToken p)
      then Some (cachedToken p)
      else None)"

text \<open>The section under \<open>Lock\<close>.\<close>
definition writeLocked ::
  "'s IdentityEndpoint \<Rightarrow> OAuth2Provider \<Rightarrow> 's
     \<Rightarrow> (Token option \<times> error option) \<times> OAuth2Provider \<times> 's" where
  "writeLocked e p s =
     (if cachedToken p \<noteq> None \<and> \<not> IsExpired (ep_clock e s) (cachedToken p)
      then ((cachedToken p, None), p, s)
      else fetchAndCache e p s)"

text \<open>
  Where a caller of \<open>GetToken\<close> stands: before its read-locked test, between the
  failed test and the write lock, or returned with its result.
\<close>
datatype caller = Idle | Waiting | Returned "Token option \<times> error option"

text \<open>The next step of caller \<open>i\<close>; a caller that has returned, or is not there, does nothing.\<close>
definition caller_step ::
  "'s IdentityEndpoint \<Rightarrow> nat \<Rightarrow> OAuth2Provider \<times> 's \<times> caller list
     \<Rightarrow> OAuth2Provider \<times> 's \<times> caller list" where
  "caller_step e i = (\<lambda>(p, s, cs).
     if i < length cs then
       (case cs ! i of
          Idle \<Rightarrow>
            (case readLocked e p s of
               Some token \<Rightarrow> (p, s, cs[i := Returned (token, None)])
             | None \<Rightarrow> (p, s, cs[i := Waiting]))
        | Waiting \<Rightarrow>
            (case writeLocked e p s of
               (r, p1, s1) \<Rightarrow> (p1, s1, cs[i := Returned r]))
        | Returned r \<Rightarrow> (p, s, cs))
     else (p, s, cs))"

text \<open>A schedule names, step by step, the caller that moves.\<close>
definition race ::
  "'s IdentityEndpoint \<Rightarrow> nat list \<Rightarrow> OAuth2Provider \<times> 's \<times> caller list
     \<Rightarrow> OAuth2Provider \<times> 's \<times> caller list" where
  "race e sched st = foldl (\<lambda>x i. caller_step e i x) st sched"

text \<open>
  An identity endpoint that counts its exchanges beside its own state, as the handler
  of the test server in \<open>TestOAuth2Provider_Concurrency\<close> does with \<open>callCount++\<close>.
\<close>
definition counting :: "'s IdentityEndpoint \<Rightarrow> ('s \<times> nat) IdentityEndpoint" where
  "counting e =
     \<lparr> ep_clock = (\<lambda>(s, n). ep_clock e s),
       ep_newRequest = ep_newRequest e,
       ep_do = (\<lambda>url cid secret (s, n).
                 case ep_do e url cid secret s of (r, s1) \<Rightarrow> (r, (s1, Suc n))),
       ep_unmarshal = ep_unmarshal e \<rparr>"

text \<open>
  What holds of a race on a stale credential all along: either nothing has been fetched
  and no caller has returned, or one exchange has been made, its token is stored and
  does not expire, and every caller that has returned has returned that token.
\<close>
definition race_inv ::
  "'s IdentityEndpoint \<Rightarrow> OAuth2Provider \<Rightarrow> nat
     \<Rightarrow> OAuth2Provider \<times> ('s \<times> nat) \<times> caller list \<Rightarrow> bool" where
  "race_inv e p0 n0 = (\<lambda>(p, (s, n), cs).
     (p = p0 \<and> n = n0 \<and> (\<forall>x \<in> set cs. x = Idle \<or> x = Waiting))
     \<or> (\<exists>tok. p = p0\<lparr>cachedToken := Some tok\<rparr> \<and> n = Suc n0
              \<and> (\<forall>s'. \<not> IsExpired (ep_clock e s') (Some tok))
              \<and> (\<forall>x \<in> set cs. x = Idle \<or> x = Waiting \<or> x = Returned (Some tok, None))))"

text \<open>How far a caller has come.\<close>
fun progress :: "caller \<Rightarrow> nat" where
  "progress Idle = 0"
| "progress Waiting = 1"
| "progress (Returned r) = 2"

section \<open>Properties of the circuit breaker\<close>

lemma cb_apply_ok: "transition_ok op cb (cb_apply op cb)"
  by (cases op; cases "state cb") (simp_all add: recordSuccess_def recordFailure_def Let_def)

lemma cb_run_snoc: "cb_run cb (ops @ [op]) = cb_apply op (cb_run cb ops)"
  by (simp add: cb_run_def)

text \<open>
  The breaker's part of one \<open>RoundTrip\<close> is \<open>canExecute\<close> followed, when the call is
  let through, by \<open>recordFailure\<close> or \<open>recordSuccess\<close>.
\<close>
lemma CBT_RoundTrip_ops:
  "fst (snd (CBT_RoundTrip t req (cb, s))) =
     (case canExecute (cb_clock t s) cb of
        (Some e, cb1) \<Rightarrow> cb_run cb [OpCanExecute (cb_clock t s)]
      | (None, cb1) \<Rightarrow>
          (case cb_base t req s of
             ((resp, err), s1) \<Rightarrow>
               cb_run cb [OpCanExecute (cb_clock t s),
                          if isCircuitBreakerFailure resp err
                          then OpRecordFailure (cb_clock t s1) else OpRecordSuccess]))"
  by (simp add: CBT_RoundTrip_def cb_run_def split: prod.splits option.splits)

text \<open>
  C2. In every sequence of operations on a circuit breaker, started in any state, each
  operation changes the breaker only as the transition rules say: \<open>canExecute\<close> moves
  open to half-open exactly when the time since the last recorded failure exceeds the
  reset timeout, and changes nothing else; a recorded success moves half-open to closed
  and sets the counter to zero; a recorded failure increments the counter, records its
  time as the time of the last failure, moves half-open to open, and moves closed to
  open exactly when the incremented counter is at or above the threshold. In every
  other case the state stays as it was, and only a recorded failure changes the time
  the reset timeout is measured from.
\<close>
theorem circuit_transitions:
  "i < length ops \<Longrightarrow>
     transition_ok (ops ! i) (cb_run cb (take i ops)) (cb_run cb (take (Suc i) ops))"
  by (simp add: take_Suc_conv_app_nth cb_run_snoc cb_apply_ok)

theorem circuit_transitions_witness:
  "(2::nat) < length [OpRecordFailure 10, OpRecordFailure 20, OpRecordFailure 30, OpCanExecute 40]
   \<and> transition_ok (OpRecordFailure 30)
        (cb_run (newCircuitBreaker 3 100) [OpRecordFailure 10, OpRecordFailure 20])
        (cb_run (newCircuitBreaker 3 100)
           [OpRecordFailure 10, OpRecordFailure 20, OpRecordFailure 30])
   \<and> state (cb_run (newCircuitBreaker 3 100) [OpRecordFailure 10, OpRecordFailure 20])
       = stateClosed
   \<and> lastFailTime (cb_run (newCircuitBreaker 3 100) [OpRecordFailure 10, OpRecordFailure 20])
       = 20
   \<and> state (cb_run (newCircuitBreaker 3 100)
        [OpRecordFailure 10, OpRecordFailure 20, OpRecordFailure 30]) = stateOpen
   \<and> lastFailTime (cb_run (newCircuitBreaker 3 100)
        [OpRecordFailure 10, OpRecordFailure 20, OpRecordFailure 30]) = 30"
  using circuit_transitions
    [of 2 "[OpRecordFailure 10, OpRecordFailure 20, OpRecordFailure 30, OpCanExecute 40]"
        "newCircuitBreaker 3 100"]
  by (simp add: cb_run_def newCircuitBreaker_def recordFailure_def Let_def
        word_sle_eq word_sless_alt)

text \<open>
  The reset timeout runs from the last recorded failure: after failures at 10, 20 and 30
  with a timeout of 100, a call at 130 finds the breaker open and leaves it so, and a
  call at 131 moves it to half-open.
\<close>
lemma half_open_after_timeout_from_last_failure:
  "state (cb_run (newCircuitBreaker 3 100)
      [OpRecordFailure 10, OpRecordFailure 20, OpRecordFailure 30, OpCanExecute 130])
     = stateOpen
   \<and> state (cb_run (newCircuitBreaker 3 100)
      [OpRecordFailure 10, OpRecordFailure 20, OpRecordFailure 30, OpCanExecute 131])
     = stateHalfOpen"
  by (simp add: cb_run_def newCircuitBreaker_def recordFailure_def Let_def time_Since_def
        time_Sub_def minDuration_def maxDuration_def word_sle_eq word_sless_alt)

text \<open>
  With a positive threshold the counter of a closed breaker stays below it, from a new
  breaker on and through every sequence of operations; so when a failure opens a closed
  breaker the counter has just become equal to the threshold.
\<close>
lemma maxFailures_cb_apply: "maxFailures (cb_apply op cb) = maxFailures cb"
  by (cases op; cases "state cb") (simp_all add: recordSuccess_def recordFailure_def Let_def)

lemma sint_incr_below:
  assumes "(c :: go_int) <s m"
  shows "sint (c + 1) = sint c + 1"
proof -
  have "sint c < sint m"
    using assms by (simp add: word_sless_alt)
  moreover have "sint m < 2 ^ 63"
    using sint_lt [of m] by simp
  moreover have "- (2 ^ 63) \<le> sint c"
    using sint_ge [of c] by simp
  ultimately have "signed_take_bit 63 (sint c + 1) = sint c + 1"
    by (intro signed_take_bit_int_eq_self) auto
  then show ?thesis
    by (simp add: sint_word_ariths)
qed

lemma below_threshold_cb_apply:
  assumes "0 <s maxFailures cb" and "below_threshold cb"
  shows "below_threshold (cb_apply op cb)"
proof (cases op)
  case (OpCanExecute now)
  with assms(2) show ?thesis
    by (cases "state cb") (simp_all add: below_threshold_def)
next
  case OpRecordSuccess
  with assms(1) show ?thesis
    by (simp add: below_threshold_def recordSuccess_def Let_def)
next
  case (OpRecordFailure now)
  then show ?thesis
    by (cases "state cb")
      (auto simp: below_threshold_def recordFailure_def Let_def word_sle_eq word_sless_alt)
qed

lemma below_threshold_cb_run:
  assumes "0 <s maxFailures cb" and "below_threshold cb"
  shows "below_threshold (cb_run cb ops) \<and> maxFailures (cb_run cb ops) = maxFailures cb"
proof (induction ops rule: rev_induct)
  case Nil
  with assms(2) show ?case by (simp add: cb_run_def)
next
  case (snoc op ops)
  then show ?case
    using assms(1) by (simp add: cb_run_snoc below_threshold_cb_apply maxFailures_cb_apply)
qed

lemma below_threshold_new: "0 <s maxF \<Longrightarrow> below_threshold (newCircuitBreaker maxF resetT)"
  by (simp add: below_threshold_def newCircuitBreaker_def)

lemma opens_at_threshold:
  assumes "below_threshold cb" and "state cb = stateClosed"
    and "state (recordFailure now cb) = stateOpen"
  shows "failureCount (recordFailure now cb) = maxFailures cb"
proof -
  have lt: "failureCount cb <s maxFailures cb"
    using assms(1,2) by (simp add: below_threshold_def)
  have ge: "maxFailures cb \<le>s failureCount cb + 1"
    using assms(2,3) by (simp add: recordFailure_def Let_def split: if_splits)
  have "sint (failureCount cb + 1) = sint (maxFailures cb)"
    using lt ge sint_incr_below [OF lt] by (simp add: word_sle_eq word_sless_alt)
  then have "failureCount cb + 1 = maxFailures cb"
    by (rule signed_word_eqI)
  then show ?thesis
    by (simp add: recordFailure_def Let_def)
qed

text \<open>
  C4. A request sent while the breaker is open and the time since the last recorded
  failure does not exceed the reset timeout gets the circuit-open error; the breaker and
  the environment of the inner sender are left as they were, so the inner sender was not
  invoked and any count of its calls is unchanged.
\<close>
theorem open_circuit_fails_fast:
  "state cb = stateOpen \<Longrightarrow>
   \<not> resetTimeout cb <s time_Since (cb_clock t s) (lastFailTime cb) \<Longrightarrow>
   CBT_RoundTrip t req (cb, s) = ((None, Some ErrCircuitOpen), cb, s)"
  by (simp add: CBT_RoundTrip_def)

theorem open_circuit_fails_fast_witness:
  "state \<lparr> state = stateOpen, failureCount = 3, maxFailures = 3, resetTimeout = Second,
           lastFailTime = 3 \<rparr> = stateOpen
   \<and> \<not> Second <s time_Since 3 3
   \<and> CBT_RoundTrip
        \<lparr> cb_base = scripted (\<lambda>n. (None, Some (OtherErr ''service unavailable''))),
          cb_clock = (\<lambda>n. int n) \<rparr>
        \<lparr> Method = ''GET'', URL = ''http://example.com'', Header = Map.empty \<rparr>
        (\<lparr> state = stateOpen, failureCount = 3, maxFailures = 3, resetTimeout = Second,
           lastFailTime = 3 \<rparr>, 3)
      = ((None, Some ErrCircuitOpen),
         \<lparr> state = stateOpen, failureCount = 3, maxFailures = 3, resetTimeout = Second,
           lastFailTime = 3 \<rparr>, 3)"
  using open_circuit_fails_fast
    [of "\<lparr> state = stateOpen, failureCount = 3, maxFailures = 3, resetTimeout = Second,
           lastFailTime = 3 \<rparr>"
        "\<lparr> cb_base = scripted (\<lambda>n. (None, Some (OtherErr ''service unavailable''))),
          cb_clock = (\<lambda>n. int n) \<rparr>"
        "3::nat"
        "\<lparr> Method = ''GET'', URL = ''http://example.com'', Header = Map.empty \<rparr>"]
  by (simp add: time_Since_def time_Sub_def minDuration_def maxDuration_def Second_def
        word_sless_alt)

text \<open>The same with a sender that counts its calls: the count stays.\<close>
lemma open_circuit_keeps_call_count:
  assumes "state cb = stateOpen"
    and "\<not> resetTimeout cb <s time_Since (clock (s, n)) (lastFailTime cb)"
  shows "CBT_RoundTrip \<lparr> cb_base = counted base, cb_clock = clock \<rparr> req (cb, (s, n))
           = ((None, Some ErrCircuitOpen), cb, (s, n))"
  using assms by (simp add: CBT_RoundTrip_def)

text \<open>The test \<open>TestCircuitBreaker_OpensAfterMaxFailures\<close>: three failing calls.\<close>
lemma three_failures_open_the_circuit:
  "(let t = \<lparr> cb_base = scripted (\<lambda>n. (None, Some (OtherErr ''service unavailable''))),
               cb_clock = (\<lambda>n. int n) \<rparr>;
        req = \<lparr> Method = ''GET'', URL = ''http://example.com'', Header = Map.empty \<rparr>;
        step = (\<lambda>x. snd (CBT_RoundTrip t req x))
    in step (step (step (newCircuitBreaker 3 Second, 0))))
   = (\<lparr> state = stateOpen, failureCount = 3, maxFailures = 3, resetTimeout = Second,
        lastFailTime = 3 \<rparr>, 3)"
  by (simp add: CBT_RoundTrip_def scripted_def newCircuitBreaker_def isCircuitBreakerFailure_def
        recordFailure_def Let_def Second_def word_sle_eq word_sless_alt)

text \<open>
  C6. An outcome is a failure for the breaker exactly when it carries an error, or no
  response, or a response with status 500 to 599. A call that was let through is
  recorded as a failure (counter incremented) in that case and as a success (counter
  zero) in every other, which includes every 4xx response.
\<close>
theorem failure_classification:
  "(isCircuitBreakerFailure resp err \<longleftrightarrow>
      err \<noteq> None \<or> resp = None \<or>
      (\<exists>r. resp = Some r \<and> 500 \<le> StatusCode r \<and> StatusCode r \<le> 599))
   \<and> (canExecute (cb_clock t s) cb = (None, cb1) \<longrightarrow>
        cb_base t req s = ((resp, err), s1) \<longrightarrow>
        (isCircuitBreakerFailure resp err \<longrightarrow>
           CBT_RoundTrip t req (cb, s) = ((resp, err), recordFailure (cb_clock t s1) cb1, s1)
           \<and> failureCount (recordFailure (cb_clock t s1) cb1) = failureCount cb1 + 1)
        \<and> (\<not> isCircuitBreakerFailure resp err \<longrightarrow>
           CBT_RoundTrip t req (cb, s) = ((resp, err), recordSuccess cb1, s1)
           \<and> failureCount (recordSuccess cb1) = 0))"
  by (auto simp: isCircuitBreakerFailure_def CBT_RoundTrip_def recordSuccess_def
        recordFailure_def Let_def split: option.splits)

theorem failure_classification_witness:
  "canExecute 0 (newCircuitBreaker 3 Second) = (None, newCircuitBreaker 3 Second)
   \<and> scripted (\<lambda>n. (Some \<lparr> StatusCode = 404, RespBody = None \<rparr>, None))
        \<lparr> Method = ''GET'', URL = ''http://example.com'', Header = Map.empty \<rparr> 0
      = ((Some \<lparr> StatusCode = 404, RespBody = None \<rparr>, None), 1)
   \<and> \<not> isCircuitBreakerFailure (Some \<lparr> StatusCode = 404, RespBody = None \<rparr>) None
   \<and> CBT_RoundTrip
        \<lparr> cb_base = scripted (\<lambda>n. (Some \<lparr> StatusCode = 404, RespBody = None \<rparr>, None)),
          cb_clock = (\<lambda>n. int n) \<rparr>
        \<lparr> Method = ''GET'', URL = ''http://example.com'', Header = Map.empty \<rparr>
        (newCircuitBreaker 3 Second, 0)
      = ((Some \<lparr> StatusCode = 404, RespBody = None \<rparr>, None),
         recordSuccess (newCircuitBreaker 3 Second), 1)
   \<and> failureCount (recordSuccess (newCircuitBreaker 3 Second)) = 0"
  using failure_classification
    [where resp = "Some \<lparr> StatusCode = 404, RespBody = None \<rparr>" and err = None
       and t = "\<lparr> cb_base = scripted (\<lambda>n. (Some \<lparr> StatusCode = 404, RespBody = None \<rparr>, None)),
                  cb_clock = (\<lambda>n. int n) \<rparr>"
       and s = "0::nat" and ?s1.0 = "1::nat"
       and cb = "newCircuitBreaker 3 Second" and ?cb1.0 = "newCircuitBreaker 3 Second"
       and req = "\<lparr> Method = ''GET'', URL = ''http://example.com'', Header = Map.empty \<rparr>"]
  by (simp add: scripted_def newCircuitBreaker_def)

section \<open>Properties of the retry stage\<close>

lemma sint_succ: "sint (a :: go_int) < maxInt \<Longrightarrow> sint (a + 1) = sint a + 1"
proof -
  assume "sint a < maxInt"
  then have h: "sint a < 2 ^ 63 - 1" by (simp add: maxInt_def)
  have lo: "- (2 ^ 63) \<le> sint a" using sint_ge [of a] by simp
  have "sint (a + 1) = signed_take_bit 63 (sint a + 1)"
    by (simp add: sint_word_ariths)
  also have "\<dots> = sint a + 1"
    using h lo by (intro signed_take_bit_int_eq_self) auto
  finally show ?thesis .
qed

text \<open>The three ways one iteration of the loop goes, for a context that is never done.\<close>

lemma retry_loop_return:
  assumes "attempt \<le>s maxRetries t"
    and "rt_base t req s = ((resp, err), s1)"
    and "\<not> (shouldRetry resp err \<and> isIdempotent (Method req))"
  shows "retry_loop t background req attempt prev s = Some ((resp, err), s1)"
proof (cases "err = None \<and> \<not> shouldRetry resp None")
  case True
  with assms(1,2) show ?thesis
    by (subst retry_loop.simps) (simp add: background_def)
next
  case False
  with assms show ?thesis
    by (subst retry_loop.simps) (auto simp: background_def shouldRetry_def)
qed

lemma retry_loop_again:
  assumes "attempt <s maxRetries t"
    and "rt_base t req s = ((resp, err), s1)"
    and "shouldRetry resp err" and "isIdempotent (Method req)"
  shows "retry_loop t background req attempt prev s =
           retry_loop t background req (attempt + 1) (closeBody resp, err) s1"
proof -
  have le: "attempt \<le>s maxRetries t"
    using assms(1) by (simp add: word_sle_eq word_sless_alt)
  show ?thesis
  proof (cases err)
    case None
    with assms(3) have "shouldRetry resp None" by simp
    with le assms None show ?thesis
      by (subst retry_loop.simps) (simp add: background_def)
  next
    case (Some e)
    with le assms show ?thesis
      by (subst retry_loop.simps) (simp add: background_def)
  qed
qed

lemma retry_loop_last:
  assumes "attempt = maxRetries t" and "sint (maxRetries t) < maxInt"
    and "rt_base t req s = ((resp, err), s1)"
    and "shouldRetry resp err" and "isIdempotent (Method req)"
  shows "retry_loop t background req attempt prev s = Some (exhausted (closeBody resp, err), s1)"
proof -
  have over: "\<not> attempt + 1 \<le>s maxRetries t"
    using assms(1,2) by (simp add: word_sle_eq sint_succ)
  have stop: "retry_loop t background req (attempt + 1) (closeBody resp, err) s1
                = Some (exhausted (closeBody resp, err), s1)"
    using over by (subst retry_loop.simps) simp
  have "retry_loop t background req attempt prev s
          = retry_loop t background req (attempt + 1) (closeBody resp, err) s1"
  proof (cases err)
    case None
    with assms(4) have "shouldRetry resp None" by simp
    with assms(1,3,5) None show ?thesis
      by (subst retry_loop.simps) (simp add: background_def word_sless_alt)
  next
    case (Some e)
    with assms(1,3,4,5) show ?thesis
      by (subst retry_loop.simps) (simp add: background_def word_sless_alt)
  qed
  with stop show ?thesis by simp
qed


lemma retry_spec_stop:
  assumes "int n \<le> sint maxR"
    and "case_prod shouldRetry (script n) \<and> isIdempotent (Method req) \<longrightarrow> \<not> int n < sint maxR"
    and "out = (if case_prod shouldRetry (script n) \<and> isIdempotent (Method req)
                then exhausted (closeBody (fst (script n)), snd (script n))
                else script n)"
  shows "retry_spec maxR req script n out (Suc n)"
  using assms unfolding retry_spec_def by simp

lemma retry_spec_step:
  assumes "case_prod shouldRetry (script n)" and "isIdempotent (Method req)"
    and "int n < sint maxR"
    and "retry_spec maxR req script (Suc n) out N"
  shows "retry_spec maxR req script n out N"
proof -
  from assms(4) have big: "Suc n < N"
    by (simp add: retry_spec_def)
  then have split: "{n..<N} = insert n {Suc n..<N}"
    by auto
  show ?thesis
    using assms big unfolding retry_spec_def split by simp
qed

lemma retry_loop_scripted:
  assumes base: "rt_base t = scripted script"
    and top: "sint (maxRetries t) < maxInt"
    and inv: "sint a = int n"
    and le: "a \<le>s maxRetries t"
  shows "\<exists>out N. retry_loop t background req a prev n = Some (out, N)
           \<and> retry_spec (maxRetries t) req script n out N"
  using inv le
proof (induction "nat (sint (maxRetries t) - sint a)" arbitrary: a n prev rule: less_induct)
  case less
  obtain resp err where sc: "script n = (resp, err)"
    by (cases "script n")
  have call: "rt_base t req n = ((resp, err), Suc n)"
    by (simp add: base scripted_def sc)
  have le': "int n \<le> sint (maxRetries t)"
    using less.prems by (simp add: word_sle_eq)
  show ?case
  proof (cases "shouldRetry resp err \<and> isIdempotent (Method req)")
    case False
    have res: "retry_loop t background req a prev n = Some ((resp, err), Suc n)"
      using less.prems(2) call False by (rule retry_loop_return)
    have "retry_spec (maxRetries t) req script n (resp, err) (Suc n)"
      using le' False sc by (intro retry_spec_stop) auto
    with res show ?thesis by blast
  next
    case True
    show ?thesis
    proof (cases "a <s maxRetries t")
      case below: True
      have lt: "sint a < sint (maxRetries t)"
        using below by (simp add: word_sless_alt)
      have step: "retry_loop t background req a prev n
                    = retry_loop t background req (a + 1) (closeBody resp, err) (Suc n)"
        using below call True by (intro retry_loop_again) auto
      have suc: "sint (a + 1) = sint a + 1"
        using lt top by (intro sint_succ) simp
      have "\<exists>out N. retry_loop t background req (a + 1) (closeBody resp, err) (Suc n)
                       = Some (out, N)
           \<and> retry_spec (maxRetries t) req script (Suc n) out N"
        using suc lt less.prems(1)
        by (intro less.hyps) (simp_all add: word_sle_eq)
      then obtain out N where
        res: "retry_loop t background req (a + 1) (closeBody resp, err) (Suc n) = Some (out, N)"
        and ok: "retry_spec (maxRetries t) req script (Suc n) out N"
        by blast
      have a1: "case_prod shouldRetry (script n)"
        using True sc by simp
      have a2: "isIdempotent (Method req)"
        using True by simp
      have a3: "int n < sint (maxRetries t)"
        using lt less.prems(1) by simp
      have "retry_spec (maxRetries t) req script n out N"
        using a1 a2 a3 ok by (rule retry_spec_step)
      with step res show ?thesis by simp
    next
      case last: False
      have ge: "sint (maxRetries t) \<le> sint a"
        using last by (simp add: word_sless_alt)
      have "sint a \<le> sint (maxRetries t)"
        using less.prems(2) by (simp add: word_sle_eq)
      with ge have same: "sint a = sint (maxRetries t)"
        by linarith
      then have eq: "a = maxRetries t"
        by (rule signed_word_eqI)
      have b1: "shouldRetry resp err" and b2: "isIdempotent (Method req)"
        using True by simp_all
      have res: "retry_loop t background req a prev n
              = Some (exhausted (closeBody resp, err), Suc n)"
        using eq top call b1 b2 by (rule retry_loop_last)
      have full: "\<not> int n < sint (maxRetries t)"
        using same less.prems(1) by linarith
      have "retry_spec (maxRetries t) req script n (exhausted (closeBody resp, err)) (Suc n)"
      proof (rule retry_spec_stop)
        show "int n \<le> sint (maxRetries t)" by (rule le')
        show "case_prod shouldRetry (script n) \<and> isIdempotent (Method req)
                \<longrightarrow> \<not> int n < sint (maxRetries t)"
          using full by simp
        show "exhausted (closeBody resp, err) =
                (if case_prod shouldRetry (script n) \<and> isIdempotent (Method req)
                 then exhausted (closeBody (fst (script n)), snd (script n))
                 else script n)"
          using b1 b2 sc by simp
      qed
      with res show ?thesis by blast
    qed
  qed
qed

lemma maxRetries_New: "maxRetries (NewRetryTransport base R b) = R"
  by (simp add: NewRetryTransport_def)

lemma rt_base_New: "rt_base (NewRetryTransport base R b) = base"
  by (simp add: NewRetryTransport_def)

lemma RT_RoundTrip_scripted:
  assumes "0 \<le>s R" and "sint R < maxInt"
  shows "\<exists>out N. RT_RoundTrip (NewRetryTransport (scripted script) R b) background req 0
                    = Some (out, N)
           \<and> retry_spec R req script 0 out N"
proof -
  have "\<exists>out N. retry_loop (NewRetryTransport (scripted script) R b) background req 0 (None, None) 0
                   = Some (out, N)
           \<and> retry_spec (maxRetries (NewRetryTransport (scripted script) R b)) req script 0 out N"
    using assms
    by (intro retry_loop_scripted
          [where t = "NewRetryTransport (scripted script) R b" and script = script
             and a = 0 and n = 0])
       (simp_all add: maxRetries_New rt_base_New)
  then show ?thesis
    by (simp only: RT_RoundTrip_def maxRetries_New)
qed

lemma retry_spec_at:
  assumes "retry_spec maxR req script n out N" and "n \<le> i" and "i < N"
  shows "(Suc i < N) =
           (case_prod shouldRetry (script i) \<and> isIdempotent (Method req) \<and> int i < sint maxR)"
  using assms unfolding retry_spec_def by simp

lemma retry_spec_out:
  assumes "retry_spec maxR req script n out N"
  shows "out = (if case_prod shouldRetry (script (N - 1)) \<and> isIdempotent (Method req)
                then exhausted (closeBody (fst (script (N - 1))), snd (script (N - 1)))
                else script (N - 1))"
  using assms unfolding retry_spec_def by (elim conjE)

lemma retry_spec_bounds:
  assumes "retry_spec maxR req script n out N"
  shows "n < N" and "int N \<le> sint maxR + 1"
  using assms unfolding retry_spec_def by simp_all

text \<open>What follows the loop, case by case.\<close>
lemma exhausted_cases:
  "exhausted (resp, Some e) = (None, Some (Wrapped ''max retries exceeded: '' e))"
  "exhausted (resp, None) = (resp, None)"
  by (simp_all add: exhausted_def)

text \<open>
  C1, as the code has it. For an idempotent method, a context that is never done,
  \<open>maxRetries\<close> from 0 to below the largest \<open>int\<close>, and an inner sender whose every
  answer is retryable, the stage calls the inner sender exactly \<open>maxRetries + 1\<close>
  times and returns what follows the loop for the last attempt: that attempt's error
  wrapped in ``max retries exceeded'' when it had one, and otherwise its response with
  no error.
\<close>
theorem retries_exhausted:
  assumes "0 \<le>s R" and "sint R < maxInt"
    and "isIdempotent (Method req)"
    and "\<forall>i \<le> nat (sint R). case_prod shouldRetry (script i)"
  shows "RT_RoundTrip (NewRetryTransport (scripted script) R b) background req 0
           = Some (exhausted (closeBody (fst (script (nat (sint R)))), snd (script (nat (sint R)))),
                   Suc (nat (sint R)))"
proof -
  obtain out N where
    res: "RT_RoundTrip (NewRetryTransport (scripted script) R b) background req 0
            = Some (out, N)"
    and ok: "retry_spec R req script 0 out N"
    using RT_RoundTrip_scripted [OF assms(1,2)] by blast
  from ok have pos: "0 < N" and bound: "int N \<le> sint R + 1"
    by (rule retry_spec_bounds)+
  have inside: "N - 1 \<le> nat (sint R)"
    using bound by linarith
  have retry: "case_prod shouldRetry (script (N - 1))"
    by (rule assms(4) [rule_format, OF inside])
  have "(Suc (N - 1) < N) =
      (case_prod shouldRetry (script (N - 1)) \<and> isIdempotent (Method req)
       \<and> int (N - 1) < sint R)"
    using ok _ _ by (rule retry_spec_at) (use pos in simp_all)
  with retry assms(3) have "\<not> int (N - 1) < sint R"
    using pos by simp
  with bound pos have N: "N = Suc (nat (sint R))"
    by linarith
  from ok have
    "out = (if case_prod shouldRetry (script (N - 1)) \<and> isIdempotent (Method req)
            then exhausted (closeBody (fst (script (N - 1))), snd (script (N - 1)))
            else script (N - 1))"
    by (rule retry_spec_out)
  with retry assms(3) have
    "out = exhausted (closeBody (fst (script (N - 1))), snd (script (N - 1)))"
    by simp
  with res N show ?thesis by simp
qed

theorem retries_exhausted_witness:
  "0 \<le>s (3 :: go_int) \<and> sint (3 :: go_int) < maxInt
   \<and> isIdempotent (Method \<lparr> Method = ''GET'', URL = ''http://example.com'', Header = Map.empty \<rparr>)
   \<and> shouldRetry None (Some (OtherErr ''network error''))
   \<and> RT_RoundTrip
        (NewRetryTransport (scripted (\<lambda>n. (None, Some (OtherErr ''network error'')))) 3 10000000)
        background \<lparr> Method = ''GET'', URL = ''http://example.com'', Header = Map.empty \<rparr> 0
      = Some ((None, Some (Wrapped ''max retries exceeded: '' (OtherErr ''network error''))), 4)"
  using retries_exhausted
    [of 3 "\<lparr> Method = ''GET'', URL = ''http://example.com'', Header = Map.empty \<rparr>"
        "\<lambda>n. (None, Some (OtherErr ''network error''))" 10000000]
  by (simp add: maxInt_def isIdempotent_def shouldRetry_def exhausted_def closeBody_def
        word_sle_eq)

text \<open>
  C1 as stated fails where every attempt ends in a retryable status and no error: with
  \<open>maxRetries = 2\<close> and a sender that always answers 503, a GET is sent three times
  and the stage returns the last response with a nil error, not an error.
\<close>
theorem retries_exhausted_counterexample:
  "isIdempotent ''GET''
   \<and> shouldRetry (Some \<lparr> StatusCode = 503,
                          RespBody = Some \<lparr> Data = ''unavailable'', Closed = False \<rparr> \<rparr>) None
   \<and> RT_RoundTrip
        (NewRetryTransport
           (scripted (\<lambda>n. (Some \<lparr> StatusCode = 503,
                                    RespBody = Some \<lparr> Data = ''unavailable'', Closed = False \<rparr> \<rparr>,
                             None)))
           2 10000000)
        background \<lparr> Method = ''GET'', URL = ''http://example.com'', Header = Map.empty \<rparr> 0
      = Some ((Some \<lparr> StatusCode = 503,
                      RespBody = Some \<lparr> Data = ''unavailable'', Closed = True \<rparr> \<rparr>, None), 3)
   \<and> \<not> retries_exhausted_error
          (Some \<lparr> StatusCode = 503,
                  RespBody = Some \<lparr> Data = ''unavailable'', Closed = True \<rparr> \<rparr>, None)"
  by (simp add: RT_RoundTrip_def NewRetryTransport_def retry_loop.simps scripted_def
        background_def shouldRetry_def isIdempotent_def exhausted_def closeBody_def
        retries_exhausted_error_def word_sle_eq word_sless_alt)

text \<open>
  C3, as the code has it. For a context that is never done and \<open>maxRetries\<close> from 0
  to below the largest \<open>int\<close>, the stage returns, and an attempt is followed by
  another exactly when its outcome is retryable, the method is idempotent and the
  attempt's index is below \<open>maxRetries\<close>; an attempt that is not retryable or whose
  method is not idempotent has its outcome returned as it is, so a request with a
  method that is not idempotent is sent exactly once.
\<close>
theorem retry_decision:
  assumes "0 \<le>s R" and "sint R < maxInt"
  shows "\<exists>out N. RT_RoundTrip (NewRetryTransport (scripted script) R b) background req 0
                    = Some (out, N)
           \<and> retry_spec R req script 0 out N
           \<and> (\<not> isIdempotent (Method req) \<longrightarrow> N = 1 \<and> out = script 0)"
proof -
  obtain out N where
    res: "RT_RoundTrip (NewRetryTransport (scripted script) R b) background req 0
            = Some (out, N)"
    and ok: "retry_spec R req script 0 out N"
    using RT_RoundTrip_scripted [OF assms(1,2)] by blast
  have "N = 1 \<and> out = script 0" if non: "\<not> isIdempotent (Method req)"
  proof -
    from ok have pos: "0 < N"
      by (rule retry_spec_bounds)
    have "(Suc 0 < N) =
      (case_prod shouldRetry (script 0) \<and> isIdempotent (Method req) \<and> int 0 < sint R)"
      using ok _ pos by (rule retry_spec_at) simp
    with non pos have one: "N = 1" by simp
    from ok have
      "out = (if case_prod shouldRetry (script (N - 1)) \<and> isIdempotent (Method req)
              then exhausted (closeBody (fst (script (N - 1))), snd (script (N - 1)))
              else script (N - 1))"
      by (rule retry_spec_out)
    with one non show ?thesis by simp
  qed
  with res ok show ?thesis by blast
qed

theorem retry_decision_witness:
  "0 \<le>s (2 :: go_int) \<and> sint (2 :: go_int) < maxInt
   \<and> RT_RoundTrip
        (NewRetryTransport
           (scripted (\<lambda>n. (Some \<lparr> StatusCode = (if n < 2 then 503 else 200), RespBody = None \<rparr>,
                             None)))
           2 10000000)
        background \<lparr> Method = ''GET'', URL = ''http://example.com'', Header = Map.empty \<rparr> 0
      = Some ((Some \<lparr> StatusCode = 200, RespBody = None \<rparr>, None), 3)
   \<and> retry_spec 2 \<lparr> Method = ''GET'', URL = ''http://example.com'', Header = Map.empty \<rparr>
        (\<lambda>n. (Some \<lparr> StatusCode = (if n < 2 then 503 else 200), RespBody = None \<rparr>, None))
        0 (Some \<lparr> StatusCode = 200, RespBody = None \<rparr>, None) 3"
proof -
  have h1: "0 \<le>s (2 :: go_int)"
    by (simp add: word_sle_eq)
  have h2: "sint (2 :: go_int) < maxInt"
    by (simp add: maxInt_def)
  have run: "RT_RoundTrip
        (NewRetryTransport
           (scripted (\<lambda>n. (Some \<lparr> StatusCode = (if n < 2 then 503 else 200), RespBody = None \<rparr>,
                             None)))
           2 10000000)
        background \<lparr> Method = ''GET'', URL = ''http://example.com'', Header = Map.empty \<rparr> 0
      = Some ((Some \<lparr> StatusCode = 200, RespBody = None \<rparr>, None), 3)"
    by (simp add: RT_RoundTrip_def NewRetryTransport_def retry_loop.simps scripted_def
          background_def shouldRetry_def isIdempotent_def exhausted_def closeBody_def
          word_sle_eq word_sless_alt)
  from retry_decision [OF h1 h2,
      of "\<lambda>n. (Some \<lparr> StatusCode = (if n < 2 then 503 else 200), RespBody = None \<rparr>, None)"
         10000000 "\<lparr> Method = ''GET'', URL = ''http://example.com'', Header = Map.empty \<rparr>"]
  have "retry_spec 2 \<lparr> Method = ''GET'', URL = ''http://example.com'', Header = Map.empty \<rparr>
        (\<lambda>n. (Some \<lparr> StatusCode = (if n < 2 then 503 else 200), RespBody = None \<rparr>, None))
        0 (Some \<lparr> StatusCode = 200, RespBody = None \<rparr>, None) 3"
    unfolding run by (elim exE conjE) simp
  with h1 h2 run show ?thesis
    by (intro conjI)
qed

text \<open>
  C3 as stated fails at the last attempt the stage is allowed: with \<open>maxRetries = 0\<close>
  a GET that ends in a transport error is retryable and idempotent, and it is sent once.
\<close>
theorem retry_decision_counterexample:
  "shouldRetry None (Some (OtherErr ''network error''))
   \<and> isIdempotent ''GET''
   \<and> RT_RoundTrip
        (NewRetryTransport (scripted (\<lambda>n. (None, Some (OtherErr ''network error'')))) 0 10000000)
        background \<lparr> Method = ''GET'', URL = ''http://example.com'', Header = Map.empty \<rparr> 0
      = Some ((None, Some (Wrapped ''max retries exceeded: '' (OtherErr ''network error''))), 1)"
  by (simp add: RT_RoundTrip_def NewRetryTransport_def retry_loop.simps scripted_def
        background_def shouldRetry_def isIdempotent_def exhausted_def closeBody_def
        word_sle_eq word_sless_alt)

text \<open>The test \<open>TestRetryTransport_NoRetryOnPOST\<close>.\<close>
lemma post_is_sent_once:
  "RT_RoundTrip
     (NewRetryTransport (scripted (\<lambda>n. (None, Some (OtherErr ''network error'')))) 5 10000000)
     background \<lparr> Method = ''POST'', URL = ''http://example.com'', Header = Map.empty \<rparr> 0
   = Some ((None, Some (OtherErr ''network error'')), 1)"
  by (simp add: RT_RoundTrip_def NewRetryTransport_def retry_loop.simps scripted_def
        background_def shouldRetry_def isIdempotent_def word_sle_eq word_sless_alt)

text \<open>Outside the hypotheses of C1 and C3: a negative \<open>maxRetries\<close> sends nothing and
  returns a nil response with a nil error; a context that is done before the first
  attempt returns its error.\<close>
lemma negative_maxRetries_sends_nothing:
  "maxRetries t <s 0 \<Longrightarrow> RT_RoundTrip t ctx req s = Some ((None, None), s)"
  unfolding RT_RoundTrip_def
  by (subst retry_loop.simps) (simp add: word_sle_eq word_sless_alt exhausted_def)

lemma cancelled_before_first_attempt:
  "0 \<le>s maxRetries t \<Longrightarrow> ctx_Done ctx s = Some e \<Longrightarrow>
     RT_RoundTrip t ctx req s = Some ((None, Some e), s)"
  unfolding RT_RoundTrip_def
  by (subst retry_loop.simps) simp

section \<open>Properties of the token cache and the auth stage\<close>

lemma sint_Second: "sint Second = 1000000000"
  by (simp add: Second_def)

lemma sint_five_minutes: "sint (5 * Minute) = 300000000000"
  by (simp add: Minute_def Second_def)

text \<open>Within about 292 years either way, the seconds of a token fit a \<open>Duration\<close>.\<close>
lemma sint_seconds:
  assumes "- 9223372036 \<le> sint (n :: go_int)" and "sint n \<le> 9223372036"
  shows "sint (n * Second) = sint n * 1000000000"
proof -
  have "sint (n * Second) = signed_take_bit 63 (sint n * 1000000000)"
    by (simp add: sint_word_mult sint_Second)
  also have "\<dots> = sint n * 1000000000"
    using assms by (intro signed_take_bit_int_eq_self) auto
  finally show ?thesis .
qed

lemma sint_time_Sub:
  "sint (time_Sub t u) = max minDuration (min maxDuration (t - u))"
proof -
  have "sint (time_Sub t u) = signed_take_bit 63 (max minDuration (min maxDuration (t - u)))"
    by (simp add: time_Sub_def sint_sbintrunc')
  also have "\<dots> = max minDuration (min maxDuration (t - u))"
    by (intro signed_take_bit_int_eq_self) (auto simp: minDuration_def maxDuration_def)
  finally show ?thesis .
qed

text \<open>The saturation of \<open>time.Until\<close> does not change the comparison with five minutes.\<close>
lemma IsExpired_Some:
  "IsExpired now (Some tok) \<longleftrightarrow>
     IssuedAt tok + sint (ExpiresIn tok * Second) - now < 300000000000"
  by (auto simp: IsExpired_def Let_def word_sless_alt sint_five_minutes time_Until_def
        time_Add_def sint_time_Sub minDuration_def maxDuration_def)

text \<open>A fetch whose request can be built is one exchange with the identity endpoint.\<close>
lemma fetchToken_one_exchange:
  "ep_newRequest e (tokenURL p) = None \<Longrightarrow>
     snd (fetchToken e p s) = snd (ep_do e (tokenURL p) (clientID p) (clientSecret p) s)"
  by (simp add: fetchToken_def split: prod.splits sum.splits)

text \<open>
  C7, as the code has it. A credential whose \<open>expires_in\<close> seconds fit a
  \<open>Duration\<close> of nanoseconds (at most 9223372036 either way) is expired exactly when
  the time remaining before issuance time plus \<open>expires_in\<close> seconds is below five
  minutes. When such a credential is stored, \<open>GetToken\<close> fetches a new one if it is
  expired, and returns it with the cache and the environment untouched if it is not.
\<close>
theorem token_expiry:
  assumes "- 9223372036 \<le> sint (ExpiresIn tok)" and "sint (ExpiresIn tok) \<le> 9223372036"
  shows "(IsExpired now (Some tok) \<longleftrightarrow> remaining_validity now tok < safety_margin)
         \<and> (cachedToken p = Some tok \<longrightarrow>
               (remaining_validity (ep_clock e s) tok < safety_margin \<longrightarrow>
                  GetToken e p s = fetchAndCache e p s)
             \<and> (\<not> remaining_validity (ep_clock e s) tok < safety_margin \<longrightarrow>
                  GetToken e p s = ((Some tok, None), p, s)))"
  using assms
  by (simp add: IsExpired_Some sint_seconds GetToken_def remaining_validity_def
        safety_margin_def)

theorem token_expiry_witness:
  "- 9223372036 \<le> sint (300 :: go_int) \<and> sint (300 :: go_int) \<le> 9223372036
   \<and> cachedToken
        \<lparr> tokenURL = ''http://idp/token'', clientID = ''client-id'',
          clientSecret = ''client-secret'',
          cachedToken = Some \<lparr> AccessToken = ''token'', TokenType = ''Bearer'',
                                ExpiresIn = 300, IssuedAt = 0 \<rparr> \<rparr>
      = Some \<lparr> AccessToken = ''token'', TokenType = ''Bearer'', ExpiresIn = 300, IssuedAt = 0 \<rparr>
   \<and> remaining_validity 60000000000
        \<lparr> AccessToken = ''token'', TokenType = ''Bearer'', ExpiresIn = 300, IssuedAt = 0 \<rparr>
      < safety_margin
   \<and> IsExpired 60000000000
        (Some \<lparr> AccessToken = ''token'', TokenType = ''Bearer'', ExpiresIn = 300, IssuedAt = 0 \<rparr>)
   \<and> GetToken (testServer 60000000000)
        \<lparr> tokenURL = ''http://idp/token'', clientID = ''client-id'',
          clientSecret = ''client-secret'',
          cachedToken = Some \<lparr> AccessToken = ''token'', TokenType = ''Bearer'',
                                ExpiresIn = 300, IssuedAt = 0 \<rparr> \<rparr> 1
      = ((Some \<lparr> AccessToken = ''test-token'', TokenType = ''Bearer'', ExpiresIn = 3600,
                  IssuedAt = 60000000000 \<rparr>, None),
         \<lparr> tokenURL = ''http://idp/token'', clientID = ''client-id'',
           clientSecret = ''client-secret'',
           cachedToken = Some \<lparr> AccessToken = ''test-token'', TokenType = ''Bearer'',
                                 ExpiresIn = 3600, IssuedAt = 60000000000 \<rparr> \<rparr>, 2)"
  using token_expiry
    [of "\<lparr> AccessToken = ''token'', TokenType = ''Bearer'', ExpiresIn = 300, IssuedAt = 0 \<rparr>"
        60000000000
        "\<lparr> tokenURL = ''http://idp/token'', clientID = ''client-id'',
           clientSecret = ''client-secret'',
           cachedToken = Some \<lparr> AccessToken = ''token'', TokenType = ''Bearer'',
                                 ExpiresIn = 300, IssuedAt = 0 \<rparr> \<rparr>"
        "testServer 60000000000" 1]
  by (simp add: remaining_validity_def safety_margin_def fetchAndCache_def fetchToken_def
        testServer_def)

text \<open>
  C7 as stated fails for a credential whose \<open>expires_in\<close> seconds do not fit a
  \<open>Duration\<close>: the product with \<open>time.Second\<close> wraps. A credential issued now
  with \<open>expires_in = 9223372037\<close> has some 292 years left and is expired for the code.
\<close>
theorem token_expiry_counterexample:
  "IsExpired 0
     (Some \<lparr> AccessToken = ''token'', TokenType = ''Bearer'', ExpiresIn = 9223372037,
             IssuedAt = 0 \<rparr>)
   \<and> \<not> remaining_validity 0
          \<lparr> AccessToken = ''token'', TokenType = ''Bearer'', ExpiresIn = 9223372037,
            IssuedAt = 0 \<rparr>
        < safety_margin"
  by (simp add: IsExpired_Some remaining_validity_def safety_margin_def Second_def)

text \<open>
  C5, as the code has it. \<open>Invalidate\<close> sets the stored credential to nil, and the
  next \<open>GetToken\<close> fetches. A \<open>GetToken\<close> whose fetch fails returns the error and
  leaves the provider, the stored credential with it, as it was.
\<close>
theorem cache_clearing:
  "cachedToken (Invalidate p) = None
   \<and> GetToken e (Invalidate p) s = fetchAndCache e (Invalidate p) s
   \<and> (fetchToken e p s = (Inl err, s1) \<longrightarrow>
        fetchAndCache e p s = ((None, Some err), p, s1)
        \<and> (cachedToken p = None \<or> IsExpired (ep_clock e s) (cachedToken p) \<longrightarrow>
             GetToken e p s = ((None, Some err), p, s1)))"
  by (auto simp: Invalidate_def GetToken_def fetchAndCache_def)

theorem cache_clearing_witness:
  "fetchToken (failingServer 0) (NewOAuth2Provider ''http://idp/token'' ''id'' ''secret'') 0
     = (Inl (TokenRequestFailed 401 ''invalid_client''), 1)
   \<and> cachedToken (NewOAuth2Provider ''http://idp/token'' ''id'' ''secret'') = None
   \<and> GetToken (failingServer 0) (NewOAuth2Provider ''http://idp/token'' ''id'' ''secret'') 0
     = ((None, Some (TokenRequestFailed 401 ''invalid_client'')),
        NewOAuth2Provider ''http://idp/token'' ''id'' ''secret'', 1)"
  using cache_clearing
    [of "NewOAuth2Provider ''http://idp/token'' ''id'' ''secret''" "failingServer 0" 0
        "TokenRequestFailed 401 ''invalid_client''" 1]
  by (simp add: fetchToken_def failingServer_def NewOAuth2Provider_def)

text \<open>
  C5 as stated fails twice. A failed fetch does not clear the cache: an expired
  credential is still stored after it. And not every \<open>GetToken\<close> after
  \<open>Invalidate\<close> fetches: the first does, and the second returns what the first
  stored, the call count of the endpoint staying at 1.
\<close>
theorem cache_clearing_counterexample:
  "IsExpired 0 (Some \<lparr> AccessToken = ''old'', TokenType = ''Bearer'', ExpiresIn = 1,
                        IssuedAt = - 2000000000 \<rparr>)
   \<and> GetToken (failingServer 0)
        \<lparr> tokenURL = ''http://idp/token'', clientID = ''id'', clientSecret = ''secret'',
          cachedToken = Some \<lparr> AccessToken = ''old'', TokenType = ''Bearer'', ExpiresIn = 1,
                                IssuedAt = - 2000000000 \<rparr> \<rparr> 0
      = ((None, Some (TokenRequestFailed 401 ''invalid_client'')),
         \<lparr> tokenURL = ''http://idp/token'', clientID = ''id'', clientSecret = ''secret'',
           cachedToken = Some \<lparr> AccessToken = ''old'', TokenType = ''Bearer'', ExpiresIn = 1,
                                 IssuedAt = - 2000000000 \<rparr> \<rparr>, 1)
   \<and> GetToken (testServer 0)
        (Invalidate \<lparr> tokenURL = ''http://idp/token'', clientID = ''id'',
                      clientSecret = ''secret'',
                      cachedToken = Some \<lparr> AccessToken = ''old'', TokenType = ''Bearer'',
                                            ExpiresIn = 1, IssuedAt = - 2000000000 \<rparr> \<rparr>) 0
      = ((Some \<lparr> AccessToken = ''test-token'', TokenType = ''Bearer'', ExpiresIn = 3600,
                  IssuedAt = 0 \<rparr>, None),
         \<lparr> tokenURL = ''http://idp/token'', clientID = ''id'', clientSecret = ''secret'',
           cachedToken = Some \<lparr> AccessToken = ''test-token'', TokenType = ''Bearer'',
                                 ExpiresIn = 3600, IssuedAt = 0 \<rparr> \<rparr>, 1)
   \<and> GetToken (testServer 0)
        \<lparr> tokenURL = ''http://idp/token'', clientID = ''id'', clientSecret = ''secret'',
          cachedToken = Some \<lparr> AccessToken = ''test-token'', TokenType = ''Bearer'',
                                ExpiresIn = 3600, IssuedAt = 0 \<rparr> \<rparr> 1
      = ((Some \<lparr> AccessToken = ''test-token'', TokenType = ''Bearer'', ExpiresIn = 3600,
                  IssuedAt = 0 \<rparr>, None),
         \<lparr> tokenURL = ''http://idp/token'', clientID = ''id'', clientSecret = ''secret'',
           cachedToken = Some \<lparr> AccessToken = ''test-token'', TokenType = ''Bearer'',
                                 ExpiresIn = 3600, IssuedAt = 0 \<rparr> \<rparr>, 1)"
  by (simp add: IsExpired_Some GetToken_def fetchAndCache_def fetchToken_def Invalidate_def
        failingServer_def testServer_def Second_def)

text \<open>
  C8. When the token provider hands out a token and the inner sender answers the
  authorized request with a response and no error, the auth stage returns that
  response as it is; the provider is left as \<open>Invalidate\<close>, applied once, leaves it when
  the status is 401, and as \<open>GetToken\<close> left it for every other status.
\<close>
theorem unauthorized_invalidates:
  assumes "tp_GetToken (tokenProvider t) p s = ((Some tok, None), p1, s1)"
    and "at_base t (authorized t tok req) s1 = ((Some r, None), s2)"
  shows "AT_RoundTrip t req (p, s) =
           (Inr (Some r, None),
            (if StatusCode r = 401 then tp_Invalidate (tokenProvider t) p1 else p1), s2)"
  using assms by (simp add: AT_RoundTrip_def authorized_def)

theorem unauthorized_invalidates_witness:
  "tp_GetToken (mock :: (mockTokenProvider, nat) TokenProvider)
       \<lparr> mock_token = Some \<lparr> AccessToken = ''test-token'', TokenType = ''Bearer'',
                               ExpiresIn = 3600, IssuedAt = 0 \<rparr>,
         mock_err = None, invalidateCount = 0 \<rparr> 0
     = ((Some \<lparr> AccessToken = ''test-token'', TokenType = ''Bearer'', ExpiresIn = 3600,
                 IssuedAt = 0 \<rparr>, None),
        \<lparr> mock_token = Some \<lparr> AccessToken = ''test-token'', TokenType = ''Bearer'',
                                ExpiresIn = 3600, IssuedAt = 0 \<rparr>,
          mock_err = None, invalidateCount = 0 \<rparr>, 0)
   \<and> AT_RoundTrip
        \<lparr> at_base = scripted (\<lambda>n. (Some \<lparr> StatusCode = (if n = 0 then 401 else 200),
                                              RespBody = None \<rparr>, None)),
          tokenProvider = mock, developerAppKey = ''test-app-key'' \<rparr>
        \<lparr> Method = ''GET'', URL = ''http://example.com'', Header = Map.empty \<rparr>
        (\<lparr> mock_token = Some \<lparr> AccessToken = ''test-token'', TokenType = ''Bearer'',
                                 ExpiresIn = 3600, IssuedAt = 0 \<rparr>,
           mock_err = None, invalidateCount = 0 \<rparr>, 0)
     = (Inr (Some \<lparr> StatusCode = 401, RespBody = None \<rparr>, None),
        \<lparr> mock_token = Some \<lparr> AccessToken = ''test-token'', TokenType = ''Bearer'',
                                ExpiresIn = 3600, IssuedAt = 0 \<rparr>,
          mock_err = None, invalidateCount = 1 \<rparr>, 1)"
  using unauthorized_invalidates
    [of "\<lparr> at_base = scripted (\<lambda>n. (Some \<lparr> StatusCode = (if n = 0 then 401 else 200),
                                                 RespBody = None \<rparr>, None)),
           tokenProvider = mock, developerAppKey = ''test-app-key'' \<rparr>"
        "\<lparr> mock_token = Some \<lparr> AccessToken = ''test-token'', TokenType = ''Bearer'',
                                 ExpiresIn = 3600, IssuedAt = 0 \<rparr>,
           mock_err = None, invalidateCount = 0 \<rparr>"
        0
        "\<lparr> AccessToken = ''test-token'', TokenType = ''Bearer'', ExpiresIn = 3600,
           IssuedAt = 0 \<rparr>"
        "\<lparr> mock_token = Some \<lparr> AccessToken = ''test-token'', TokenType = ''Bearer'',
                                 ExpiresIn = 3600, IssuedAt = 0 \<rparr>,
           mock_err = None, invalidateCount = 0 \<rparr>"
        0
        "\<lparr> Method = ''GET'', URL = ''http://example.com'', Header = Map.empty \<rparr>"
        "\<lparr> StatusCode = 401, RespBody = None \<rparr>" 1]
  by (simp add: mock_def scripted_def)

text \<open>With the OAuth2 provider behind the auth stage, a 401 leaves the cache empty.\<close>
lemma unauthorized_clears_oauth2_cache:
  assumes "GetToken e p s = ((Some tok, None), p1, s1)"
    and "at_base t (authorized t tok req) s1 = ((Some r, None), s2)"
    and "StatusCode r = 401" and "tokenProvider t = oauth2 e"
  shows "\<exists>p2. AT_RoundTrip t req (p, s) = (Inr (Some r, None), p2, s2) \<and> cachedToken p2 = None"
  using assms by (simp add: AT_RoundTrip_def authorized_def oauth2_def Invalidate_def)

section \<open>Properties of concurrent callers of GetToken\<close>

text \<open>\<open>GetToken\<close> is its read-locked test followed, when that fails, by its write-locked
  section.\<close>
lemma GetToken_sections:
  "GetToken e p s =
     (case readLocked e p s of
        Some token \<Rightarrow> ((token, None), p, s)
      | None \<Rightarrow> writeLocked e p s)"
  by (simp add: GetToken_def readLocked_def writeLocked_def)

text \<open>A caller that runs its two steps alone has made one call of \<open>GetToken\<close>.\<close>
lemma one_caller_is_GetToken:
  "race e [0, 0] (p, s, [Idle]) =
     (case GetToken e p s of (r, p1, s1) \<Rightarrow> (p1, s1, [Returned r]))"
  by (simp add: race_def caller_step_def GetToken_sections split: option.splits prod.splits)

lemma IsExpired_None: "IsExpired now None"
  by (simp add: IsExpired_def)

lemma ep_clock_counting: "ep_clock (counting e) (s, n) = ep_clock e s"
  by (simp add: counting_def)

lemma readLocked_counting: "readLocked (counting e) p (s, n) = readLocked e p s"
  by (simp add: readLocked_def ep_clock_counting)

text \<open>A fetch that succeeds is one exchange more on the count, with the same token.\<close>
lemma fetchToken_counting:
  assumes "fetchToken e p s = (Inr tok, s1)"
  shows "fetchToken (counting e) p (s, n) = (Inr tok, (s1, Suc n))"
  using assms
  by (auto simp: fetchToken_def counting_def split: option.splits prod.splits sum.splits
        if_splits)

lemma fetchAndCache_counting:
  assumes "fetchToken e p s = (Inr tok, s1)"
  shows "fetchAndCache (counting e) p (s, n)
           = ((Some tok, None), p\<lparr>cachedToken := Some tok\<rparr>, (s1, Suc n))"
  by (simp add: fetchAndCache_def fetchToken_counting [OF assms])

lemma all_update:
  assumes "\<forall>x \<in> set cs. P x" and "P v"
  shows "\<forall>x \<in> set (cs[i := v]). P x"
  using assms set_update_subset_insert [of cs i v] by auto

lemma race_inv_before:
  assumes "\<forall>x \<in> set cs. x = Idle \<or> x = Waiting"
  shows "race_inv e p0 n0 (p0, (s, n0), cs)"
  using assms by (simp add: race_inv_def)

lemma race_inv_after:
  assumes "\<forall>s'. \<not> IsExpired (ep_clock e s') (Some tok)"
    and "\<forall>x \<in> set cs. x = Idle \<or> x = Waiting \<or> x = Returned (Some tok, None)"
  shows "race_inv e p0 n0 (p0\<lparr>cachedToken := Some tok\<rparr>, (s, Suc n0), cs)"
  using assms by (auto simp: race_inv_def)

text \<open>Before the fetch: a test fails, and the write-locked section fetches.\<close>
lemma caller_step_before:
  assumes stale: "\<forall>s. IsExpired (ep_clock e s) (cachedToken p0)"
    and fresh: "\<forall>s. \<exists>tok s1. fetchToken e p0 s = (Inr tok, s1)
                      \<and> (\<forall>s'. \<not> IsExpired (ep_clock e s') (Some tok))"
    and idle: "\<forall>x \<in> set cs. x = Idle \<or> x = Waiting"
  shows "race_inv e p0 n0 (caller_step (counting e) i (p0, (s, n0), cs))"
proof (cases "i < length cs")
  case False
  then show ?thesis
    using idle by (simp add: caller_step_def race_inv_before)
next
  case True
  from stale have test: "readLocked e p0 s = None"
    by (simp add: readLocked_def)
  from True idle have "cs ! i = Idle \<or> cs ! i = Waiting"
    by simp
  then show ?thesis
  proof
    assume pos: "cs ! i = Idle"
    have "\<forall>x \<in> set (cs[i := Waiting]). x = Idle \<or> x = Waiting"
      using idle by (rule all_update) simp
    then have "race_inv e p0 n0 (p0, (s, n0), cs[i := Waiting])"
      by (rule race_inv_before)
    then show ?thesis
      using True pos test by (simp add: caller_step_def readLocked_counting)
  next
    assume pos: "cs ! i = Waiting"
    from fresh obtain tok s1 where
      got: "fetchToken e p0 s = (Inr tok, s1)"
      and good: "\<forall>s'. \<not> IsExpired (ep_clock e s') (Some tok)"
      by blast
    have sect: "writeLocked (counting e) p0 (s, n0)
                     = ((Some tok, None), p0\<lparr>cachedToken := Some tok\<rparr>, (s1, Suc n0))"
      using stale by (simp add: writeLocked_def ep_clock_counting fetchAndCache_counting [OF got])
    have "\<forall>x \<in> set cs. x = Idle \<or> x = Waiting \<or> x = Returned (Some tok, None)"
      using idle by auto
    then have "\<forall>x \<in> set (cs[i := Returned (Some tok, None)]).
                 x = Idle \<or> x = Waiting \<or> x = Returned (Some tok, None)"
      by (rule all_update) simp
    with good have "race_inv e p0 n0
        (p0\<lparr>cachedToken := Some tok\<rparr>, (s1, Suc n0), cs[i := Returned (Some tok, None)])"
      by (rule race_inv_after)
    then show ?thesis
      using True pos sect by (simp add: caller_step_def)
  qed
qed

text \<open>After the fetch: every test succeeds, and nobody fetches.\<close>
lemma caller_step_after:
  assumes good: "\<forall>s'. \<not> IsExpired (ep_clock e s') (Some tok)"
    and seen: "\<forall>x \<in> set cs. x = Idle \<or> x = Waiting \<or> x = Returned (Some tok, None)"
  shows "race_inv e p0 n0
           (caller_step (counting e) i (p0\<lparr>cachedToken := Some tok\<rparr>, (s, Suc n0), cs))"
proof -
  let ?p = "p0\<lparr>cachedToken := Some tok\<rparr>"
  have test: "readLocked e ?p s = Some (Some tok)"
    using good by (simp add: readLocked_def)
  have sect: "writeLocked (counting e) ?p (s, Suc n0) = ((Some tok, None), ?p, (s, Suc n0))"
    using good by (simp add: writeLocked_def ep_clock_counting)
  have same: "race_inv e p0 n0 (?p, (s, Suc n0), cs)"
    using good seen by (rule race_inv_after)
  have "\<forall>x \<in> set (cs[i := Returned (Some tok, None)]).
          x = Idle \<or> x = Waiting \<or> x = Returned (Some tok, None)"
    using seen by (rule all_update) simp
  with good have moved: "race_inv e p0 n0 (?p, (s, Suc n0), cs[i := Returned (Some tok, None)])"
    by (rule race_inv_after)
  show ?thesis
  proof (cases "i < length cs")
    case False
    with same show ?thesis by (simp add: caller_step_def)
  next
    case True
    show ?thesis
    proof (cases "cs ! i")
      case Idle
      with True test moved show ?thesis
        by (simp add: caller_step_def readLocked_counting)
    next
      case Waiting
      with True sect moved show ?thesis
        by (simp add: caller_step_def)
    next
      case (Returned r)
      with True same show ?thesis
        by (simp add: caller_step_def)
    qed
  qed
qed

lemma caller_step_inv:
  assumes stale: "\<forall>s. IsExpired (ep_clock e s) (cachedToken p0)"
    and fresh: "\<forall>s. \<exists>tok s1. fetchToken e p0 s = (Inr tok, s1)
                      \<and> (\<forall>s'. \<not> IsExpired (ep_clock e s') (Some tok))"
    and inv: "race_inv e p0 n0 st"
  shows "race_inv e p0 n0 (caller_step (counting e) i st)"
proof -
  obtain p s n cs where st: "st = (p, (s, n), cs)"
    by (cases st) auto
  from inv consider
      (before) "p = p0" "n = n0" "\<forall>x \<in> set cs. x = Idle \<or> x = Waiting"
    | (after) tok where "p = p0\<lparr>cachedToken := Some tok\<rparr>" "n = Suc n0"
        "\<forall>s'. \<not> IsExpired (ep_clock e s') (Some tok)"
        "\<forall>x \<in> set cs. x = Idle \<or> x = Waiting \<or> x = Returned (Some tok, None)"
    unfolding st race_inv_def by auto
  then show ?thesis
  proof cases
    case before
    show ?thesis
      unfolding st before(1,2) using stale fresh before(3) by (rule caller_step_before)
  next
    case after
    show ?thesis
      unfolding st after(1,2) using after(3,4) by (rule caller_step_after)
  qed
qed

lemma race_snoc: "race e (sched @ [i]) st = caller_step e i (race e sched st)"
  by (simp add: race_def)

lemma race_inv_race:
  assumes stale: "\<forall>s. IsExpired (ep_clock e s) (cachedToken p0)"
    and fresh: "\<forall>s. \<exists>tok s1. fetchToken e p0 s = (Inr tok, s1)
                      \<and> (\<forall>s'. \<not> IsExpired (ep_clock e s') (Some tok))"
  shows "race_inv e p0 n0 (race (counting e) sched (p0, (s0, n0), replicate N Idle))"
proof (induction sched rule: rev_induct)
  case Nil
  show ?case
    by (simp add: race_def race_inv_before)
next
  case (snoc i sched)
  show ?case
    unfolding race_snoc using stale fresh snoc.IH by (rule caller_step_inv)
qed

text \<open>Every caller moves on with each step of its own, under any endpoint.\<close>
lemma caller_step_length: "length (snd (snd (caller_step e i st))) = length (snd (snd st))"
  by (cases st)
     (auto simp: caller_step_def split: caller.splits option.splits prod.splits)

lemma caller_step_progress:
  assumes "j < length (snd (snd st))"
  shows "min 2 (progress (snd (snd st) ! j) + (if i = j then 1 else 0))
           \<le> progress (snd (snd (caller_step e i st)) ! j)"
proof -
  obtain p s cs where st: "st = (p, s, cs)"
    by (cases st) auto
  show ?thesis
    using assms unfolding st
    by (cases "cs ! i")
       (auto simp: caller_step_def nth_list_update split: option.splits prod.splits)
qed

lemma race_length: "length (snd (snd (race e sched st))) = length (snd (snd st))"
  by (induction sched rule: rev_induct) (simp_all add: race_def caller_step_length)

lemma race_progress:
  assumes "j < length (snd (snd st))"
  shows "min 2 (progress (snd (snd st) ! j) + count_list sched j)
           \<le> progress (snd (snd (race e sched st)) ! j)"
proof (induction sched rule: rev_induct)
  case Nil
  show ?case by (simp add: race_def)
next
  case (snoc i sched)
  have len: "j < length (snd (snd (race e sched st)))"
    using assms by (simp add: race_length)
  have "min 2 (progress (snd (snd (race e sched st)) ! j) + (if i = j then 1 else 0))
          \<le> progress (snd (snd (race e (sched @ [i]) st)) ! j)"
    unfolding race_snoc using len by (rule caller_step_progress)
  with snoc.IH show ?case
    by (auto simp: min_def split: if_splits)
qed

lemma progress_two: "2 \<le> progress c \<Longrightarrow> \<exists>r. c = Returned r"
  by (cases c) simp_all

text \<open>
  C10, as the code has it. Let any number of callers of \<open>GetToken\<close> interleave, under
  any schedule, on a credential that is missing or expired, with an identity endpoint
  whose fetch succeeds with a token that does not expire while they run. Then the
  endpoint is called at most once; every caller that has returned found exactly one
  call made and returned the stored token without an error; and every caller that has
  moved twice has returned. So once all callers have returned, the fetch has happened
  exactly once: the first caller in the write-locked section made it, and the others
  returned what it stored.
\<close>
theorem single_fetch:
  assumes stale: "\<forall>s. IsExpired (ep_clock e s) (cachedToken p0)"
    and fresh: "\<forall>s. \<exists>tok s1. fetchToken e p0 s = (Inr tok, s1)
                      \<and> (\<forall>s'. \<not> IsExpired (ep_clock e s') (Some tok))"
    and run: "race (counting e) sched (p0, (s0, n0), replicate N Idle) = (p, (s, n), cs)"
  shows "length cs = N
         \<and> (n = n0 \<or> n = Suc n0)
         \<and> (\<forall>i < N. \<forall>r. cs ! i = Returned r \<longrightarrow>
               n = Suc n0 \<and> cachedToken p \<noteq> None \<and> r = (cachedToken p, None))
         \<and> (\<forall>i < N. 2 \<le> count_list sched i \<longrightarrow> (\<exists>r. cs ! i = Returned r))"
proof -
  have len: "length cs = N"
    using race_length [of "counting e" sched "(p0, (s0, n0), replicate N Idle)"]
    by (simp add: run)
  have "race_inv e p0 n0 (p, (s, n), cs)"
    using race_inv_race [OF stale fresh, of n0 sched s0 N] by (simp add: run)
  then consider
      (before) "n = n0" "\<forall>x \<in> set cs. x = Idle \<or> x = Waiting"
    | (after) tok where "cachedToken p = Some tok" "n = Suc n0"
        "\<forall>x \<in> set cs. x = Idle \<or> x = Waiting \<or> x = Returned (Some tok, None)"
    unfolding race_inv_def by auto
  then have both: "(n = n0 \<or> n = Suc n0)
      \<and> (\<forall>i < N. \<forall>r. cs ! i = Returned r \<longrightarrow>
               n = Suc n0 \<and> cachedToken p \<noteq> None \<and> r = (cachedToken p, None))"
  proof cases
    case before
    have ret: "\<forall>i < N. \<forall>r. cs ! i = Returned r \<longrightarrow>
               n = Suc n0 \<and> cachedToken p \<noteq> None \<and> r = (cachedToken p, None)"
    proof (intro allI impI)
      fix i r assume "i < N" and "cs ! i = Returned r"
      with len have "Returned r \<in> set cs"
        by (metis nth_mem)
      with before(2) show "n = Suc n0 \<and> cachedToken p \<noteq> None \<and> r = (cachedToken p, None)"
        by auto
    qed
    show ?thesis
      by (rule conjI [OF disjI1 [OF before(1)] ret])
  next
    case after
    have ret: "\<forall>i < N. \<forall>r. cs ! i = Returned r \<longrightarrow>
               n = Suc n0 \<and> cachedToken p \<noteq> None \<and> r = (cachedToken p, None)"
    proof (intro allI impI)
      fix i r assume "i < N" and "cs ! i = Returned r"
      with len have "Returned r \<in> set cs"
        by (metis nth_mem)
      with after show "n = Suc n0 \<and> cachedToken p \<noteq> None \<and> r = (cachedToken p, None)"
        by auto
    qed
    show ?thesis
      by (rule conjI [OF disjI2 [OF after(2)] ret])
  qed
  have moved: "\<forall>i < N. 2 \<le> count_list sched i \<longrightarrow> (\<exists>r. cs ! i = Returned r)"
  proof (intro allI impI)
    fix i assume "i < N" and twice: "2 \<le> count_list sched i"
    then have "min 2 (progress (replicate N Idle ! i) + count_list sched i)
                 \<le> progress (cs ! i)"
      using race_progress [of i "(p0, (s0, n0), replicate N Idle)" sched "counting e"]
      by (simp add: run)
    with twice have "2 \<le> progress (cs ! i)"
      by simp
    then show "\<exists>r. cs ! i = Returned r"
      by (rule progress_two)
  qed
  from both have count: "n = n0 \<or> n = Suc n0"
    and returned: "\<forall>i < N. \<forall>r. cs ! i = Returned r \<longrightarrow>
               n = Suc n0 \<and> cachedToken p \<noteq> None \<and> r = (cachedToken p, None)"
    by (rule conjunct1, rule conjunct2)
  show ?thesis
    by (rule conjI [OF len conjI [OF count conjI [OF returned moved]]])
qed

theorem single_fetch_witness:
  "(\<forall>s. IsExpired (ep_clock (testServer 0) s)
          (cachedToken (NewOAuth2Provider ''http://idp/token'' ''id'' ''secret'')))
   \<and> (\<forall>s. \<exists>tok s1.
          fetchToken (testServer 0) (NewOAuth2Provider ''http://idp/token'' ''id'' ''secret'') s
            = (Inr tok, s1)
          \<and> (\<forall>s'. \<not> IsExpired (ep_clock (testServer 0) s') (Some tok)))
   \<and> race (counting (testServer 0)) [0, 1, 1, 2, 0, 2]
        (NewOAuth2Provider ''http://idp/token'' ''id'' ''secret'', (0, 0), replicate 3 Idle)
      = (\<lparr> tokenURL = ''http://idp/token'', clientID = ''id'', clientSecret = ''secret'',
           cachedToken = Some \<lparr> AccessToken = ''test-token'', TokenType = ''Bearer'',
                                 ExpiresIn = 3600, IssuedAt = 0 \<rparr> \<rparr>,
         (1, 1),
         [Returned (Some \<lparr> AccessToken = ''test-token'', TokenType = ''Bearer'',
                            ExpiresIn = 3600, IssuedAt = 0 \<rparr>, None),
          Returned (Some \<lparr> AccessToken = ''test-token'', TokenType = ''Bearer'',
                            ExpiresIn = 3600, IssuedAt = 0 \<rparr>, None),
          Returned (Some \<lparr> AccessToken = ''test-token'', TokenType = ''Bearer'',
                            ExpiresIn = 3600, IssuedAt = 0 \<rparr>, None)])
   \<and> 2 \<le> count_list [0, 1, 1, 2, 0, 2] (0 :: nat)
   \<and> 2 \<le> count_list [0, 1, 1, 2, 0, 2] (1 :: nat)
   \<and> 2 \<le> count_list [0, 1, 1, 2, 0, 2] (2 :: nat)
   \<and> ((1 :: nat) = 0 \<or> (1 :: nat) = Suc 0)"
proof -
  let ?p0 = "NewOAuth2Provider ''http://idp/token'' ''id'' ''secret''"
  let ?tok = "\<lparr> AccessToken = ''test-token'', TokenType = ''Bearer'',
                ExpiresIn = 3600, IssuedAt = 0 \<rparr>"
  have stale: "\<forall>s. IsExpired (ep_clock (testServer 0) s) (cachedToken ?p0)"
    by (simp add: NewOAuth2Provider_def IsExpired_None)
  have fetch: "fetchToken (testServer 0) ?p0 s = (Inr ?tok, Suc s)" for s
    by (simp add: fetchToken_def testServer_def NewOAuth2Provider_def)
  have good: "\<not> IsExpired (ep_clock (testServer 0) s') (Some ?tok)" for s'
    by (simp add: IsExpired_Some testServer_def Second_def)
  have fresh: "\<forall>s. \<exists>tok s1. fetchToken (testServer 0) ?p0 s = (Inr tok, s1)
                 \<and> (\<forall>s'. \<not> IsExpired (ep_clock (testServer 0) s') (Some tok))"
    using fetch good by blast
  have run: "race (counting (testServer 0)) [0, 1, 1, 2, 0, 2] (?p0, (0, 0), replicate 3 Idle)
      = (\<lparr> tokenURL = ''http://idp/token'', clientID = ''id'', clientSecret = ''secret'',
           cachedToken = Some ?tok \<rparr>,
         (1, 1),
         [Returned (Some ?tok, None), Returned (Some ?tok, None), Returned (Some ?tok, None)])"
    by (simp add: race_def caller_step_def readLocked_def writeLocked_def fetchAndCache_def
          fetchToken_def counting_def testServer_def NewOAuth2Provider_def IsExpired_Some
          IsExpired_None Second_def numeral_3_eq_3)
  have moves: "2 \<le> count_list [0, 1, 1, 2, 0, 2] (0 :: nat)"
    "2 \<le> count_list [0, 1, 1, 2, 0, 2] (1 :: nat)"
    "2 \<le> count_list [0, 1, 1, 2, 0, 2] (2 :: nat)"
    by simp_all
  from single_fetch [OF stale fresh run] have once: "(1 :: nat) = 0 \<or> (1 :: nat) = Suc 0"
    by (elim conjE)
  from stale fresh run moves once show ?thesis
    by (intro conjI)
qed

text \<open>
  C10 as stated fails without those conditions. When the fetch fails nothing is stored,
  and each of two callers racing on a missing credential makes its own call to the
  endpoint. The same happens when the endpoint issues tokens that are within five
  minutes of their expiry, as the server of \<open>TestOAuth2Provider_GetToken_ExpiredToken\<close>
  does with \<open>expires_in = 1\<close>: the stored token is expired for the second caller.
\<close>
theorem single_fetch_counterexample:
  "race (failingServer 0) [0, 1, 0, 1]
     (NewOAuth2Provider ''http://idp/token'' ''id'' ''secret'', 0, [Idle, Idle])
   = (NewOAuth2Provider ''http://idp/token'' ''id'' ''secret'', 2,
      [Returned (None, Some (TokenRequestFailed 401 ''invalid_client'')),
       Returned (None, Some (TokenRequestFailed 401 ''invalid_client''))])
   \<and> race ((testServer 0)
              \<lparr> ep_unmarshal := (\<lambda>body. Inr \<lparr> tr_AccessToken = ''test-token'',
                                                tr_TokenType = ''Bearer'',
                                                tr_ExpiresIn = 1 \<rparr>) \<rparr>)
        [0, 1, 0, 1]
        (NewOAuth2Provider ''http://idp/token'' ''id'' ''secret'', 0, [Idle, Idle])
   = (\<lparr> tokenURL = ''http://idp/token'', clientID = ''id'', clientSecret = ''secret'',
        cachedToken = Some \<lparr> AccessToken = ''test-token'', TokenType = ''Bearer'',
                              ExpiresIn = 1, IssuedAt = 0 \<rparr> \<rparr>,
      2,
      [Returned (Some \<lparr> AccessToken = ''test-token'', TokenType = ''Bearer'',
                         ExpiresIn = 1, IssuedAt = 0 \<rparr>, None),
       Returned (Some \<lparr> AccessToken = ''test-token'', TokenType = ''Bearer'',
                         ExpiresIn = 1, IssuedAt = 0 \<rparr>, None)])"
  by (simp add: race_def caller_step_def readLocked_def writeLocked_def fetchAndCache_def
        fetchToken_def failingServer_def testServer_def NewOAuth2Provider_def IsExpired_Some
        IsExpired_None Second_def)

end
